theory Spec2Isabelle
  imports Complex_Main "HOL-Library.Log_Nat" "HOL-Library.List_Lexorder" "HOL-Library.Char_ord"
begin

section \<open>Go's float64 and int\<close>

text \<open>
  The downloader computes part counts, percentages and part ordinals in Go's \<open>float64\<close>
  (IEEE-754 binary64, round to nearest, ties to even). A value is a NaN, an infinity
  or a finite real; every finite result of an operation is rounded by \<open>round64\<close> to the
  nearest number \<open>m * 2^e\<close> with \<open>\<bar>m\<bar> \<le> 2^53\<close> and \<open>e \<ge> -1074\<close>, and a result whose rounded
  magnitude reaches \<open>2^1024\<close> becomes an infinity. The sign of a zero is not represented:
  a zero divisor behaves as Go's \<open>+0\<close>. The type has a value \<open>Fin r\<close> for every real \<open>r\<close>,
  also for those that are no binary64 numbers; a statement about all of its values
  holds for the binary64 numbers among them.
\<close>

datatype float64 = NaN | PInf | NInf | Fin real

text \<open>Rounding a real to the nearest integer, a tie going to the even neighbour.\<close>

definition rne :: "real \<Rightarrow> int" where
  "rne y = (let f = \<lfloor>y\<rfloor>; d = y - of_int f in
     if d < 1/2 then f else if 1/2 < d then f + 1 else if even f then f else f + 1)"

text \<open>The exponent of the last place of the binary64 numbers around \<open>x\<close>: 53 significant
  bits in the normal range, the fixed exponent \<open>-1074\<close> in the subnormal range.\<close>

definition expo :: "real \<Rightarrow> int" where
  "expo x = max (\<lfloor>log 2 \<bar>x\<bar>\<rfloor> - 52) (- 1074)"

definition f64_overflow :: real where
  "f64_overflow = 2 ^ 1024"

definition round64 :: "real \<Rightarrow> float64" where
  "round64 x = (if x = 0 then Fin 0 else
     let e = expo x; r = of_int (rne (x / 2 powi e)) * 2 powi e
     in if f64_overflow \<le> \<bar>r\<bar> then (if 0 < x then PInf else NInf) else Fin r)"

text \<open>\<open>float64(n)\<close> for an integer \<open>n\<close>.\<close>

definition f64_of_int :: "int \<Rightarrow> float64" where
  "f64_of_int n = round64 (of_int n)"


fun f64_add :: "float64 \<Rightarrow> float64 \<Rightarrow> float64" where
  "f64_add NaN _ = NaN"
| "f64_add _ NaN = NaN"
| "f64_add PInf NInf = NaN"
| "f64_add NInf PInf = NaN"
| "f64_add PInf _ = PInf"
| "f64_add _ PInf = PInf"
| "f64_add NInf _ = NInf"
| "f64_add _ NInf = NInf"
| "f64_add (Fin a) (Fin b) = round64 (a + b)"


fun f64_mul :: "float64 \<Rightarrow> float64 \<Rightarrow> float64" where
  "f64_mul NaN _ = NaN"
| "f64_mul _ NaN = NaN"
| "f64_mul PInf PInf = PInf"
| "f64_mul PInf NInf = NInf"
| "f64_mul NInf PInf = NInf"
| "f64_mul NInf NInf = PInf"
| "f64_mul PInf (Fin b) = (if b = 0 then NaN else if 0 < b then PInf else NInf)"
| "f64_mul NInf (Fin b) = (if b = 0 then NaN else if 0 < b then NInf else PInf)"
| "f64_mul (Fin a) PInf = (if a = 0 then NaN else if 0 < a then PInf else NInf)"
| "f64_mul (Fin a) NInf = (if a = 0 then NaN else if 0 < a then NInf else PInf)"
| "f64_mul (Fin a) (Fin b) = round64 (a * b)"

fun f64_div :: "float64 \<Rightarrow> float64 \<Rightarrow> float64" where
  "f64_div NaN _ = NaN"
| "f64_div _ NaN = NaN"
| "f64_div PInf PInf = NaN"
| "f64_div PInf NInf = NaN"
| "f64_div NInf PInf = NaN"
| "f64_div NInf NInf = NaN"
| "f64_div PInf (Fin b) = (if b < 0 then NInf else PInf)"
| "f64_div NInf (Fin b) = (if b < 0 then PInf else NInf)"
| "f64_div (Fin a) PInf = Fin 0"
| "f64_div (Fin a) NInf = Fin 0"
| "f64_div (Fin a) (Fin b) =
     (if b = 0 then (if a = 0 then NaN else if 0 < a then PInf else NInf)
      else round64 (a / b))"

text \<open>Go's \<open>a < b\<close> and \<open>a <= b\<close> on float64: false as soon as one side is a NaN.\<close>

fun f64_lt :: "float64 \<Rightarrow> float64 \<Rightarrow> bool" where
  "f64_lt NaN _ = False"
| "f64_lt _ NaN = False"
| "f64_lt _ NInf = False"
| "f64_lt NInf _ = True"
| "f64_lt PInf _ = False"
| "f64_lt _ PInf = True"
| "f64_lt (Fin a) (Fin b) = (a < b)"

fun f64_le :: "float64 \<Rightarrow> float64 \<Rightarrow> bool" where
  "f64_le NaN _ = False"
| "f64_le _ NaN = False"
| "f64_le NInf _ = True"
| "f64_le _ NInf = False"
| "f64_le _ PInf = True"
| "f64_le PInf _ = False"
| "f64_le (Fin a) (Fin b) = (a \<le> b)"

text \<open>\<open>math.Ceil\<close>: the least integer not below the argument; NaN and the infinities are
  returned unchanged.\<close>

fun Ceil :: "float64 \<Rightarrow> float64" where
  "Ceil (Fin r) = Fin (of_int \<lceil>r\<rceil>)"
| "Ceil x = x"

text \<open>
  Go's \<open>int\<close> is taken as 64 bits wide (the amd64 and arm64 targets); integer arithmetic
  wraps around. The conversion \<open>int(f)\<close> of a float64 drops the fraction (rounds toward
  zero). For a NaN, an infinity or a value outside the int64 range Go leaves the result
  to the implementation; the model returns what amd64 returns, \<open>-2^63\<close>. Every theorem
  below that converts a float has the value in range, so none depends on this choice.
\<close>

definition wrap64 :: "int \<Rightarrow> int" where
  "wrap64 n = (n + 2 ^ 63) mod 2 ^ 64 - 2 ^ 63"

definition toward_zero :: "real \<Rightarrow> int" where
  "toward_zero r = (if 0 \<le> r then \<lfloor>r\<rfloor> else \<lceil>r\<rceil>)"

fun int_of_f64 :: "float64 \<Rightarrow> int" where
  "int_of_f64 (Fin r) =
     (if - (2 ^ 63) \<le> toward_zero r \<and> toward_zero r < 2 ^ 63 then toward_zero r else - (2 ^ 63))"
| "int_of_f64 _ = - (2 ^ 63)"

section \<open>Go's strings package\<close>

text \<open>
  A Go string is a sequence of bytes, here a \<open>string\<close> (a list of 8-bit characters).
  \<open>strings.ToLower\<close> adds \<open>'a' - 'A'\<close> to the bytes \<open>'A'..'Z'\<close>; the model keeps every other
  byte. On a string with a byte above 0x7F Go lowers whole Unicode code points instead;
  no code point outside ASCII lowers to a letter or digit of \<open>h264\<close>, \<open>avc\<close> or \<open>avc1\<close>, so
  on such a string the comparison in \<open>IsH264Compatible\<close> is false in Go as it is here.
\<close>

definition lower_char :: "char \<Rightarrow> char" where
  "lower_char c =
     (let n = of_char c :: nat in if 65 \<le> n \<and> n \<le> 90 then char_of (n + 32) else c)"

definition upper_char :: "char \<Rightarrow> char" where
  "upper_char c =
     (let n = of_char c :: nat in if 97 \<le> n \<and> n \<le> 122 then char_of (n - 32) else c)"

definition ToLower :: "string \<Rightarrow> string" where
  "ToLower s = map lower_char s"

fun HasPrefix :: "string \<Rightarrow> string \<Rightarrow> bool" where
  "HasPrefix s [] = True"
| "HasPrefix [] (p # ps) = False"
| "HasPrefix (c # cs) (p # ps) = (c = p \<and> HasPrefix cs ps)"

fun Contains :: "string \<Rightarrow> string \<Rightarrow> bool" where
  "Contains [] substr = HasPrefix [] substr"
| "Contains (c # cs) substr = (HasPrefix (c # cs) substr \<or> Contains cs substr)"

text \<open>
  \<open>strings.TrimSpace\<close> removes the leading and the trailing white space, as Unicode
  defines it. \<open>white_space\<close> lists the UTF-8 encodings of those code points: the six ASCII
  ones, U+0085, U+00A0, U+1680, U+2000 to U+200A, U+2028, U+2029, U+202F, U+205F and
  U+3000. \<open>trim_from seqs k s\<close> drops \<open>k\<close> bytes and then every leading sequence of \<open>seqs\<close>.
\<close>

definition white_space :: "string list" where
  "white_space =
     [CHR 0x09] # [CHR 0x0A] # [CHR 0x0B] # [CHR 0x0C] # [CHR 0x0D] # [CHR 0x20] #
     [CHR 0xC2, CHR 0x85] # [CHR 0xC2, CHR 0xA0] # [CHR 0xE1, CHR 0x9A, CHR 0x80] #
     [CHR 0xE2, CHR 0x80, CHR 0x80] # [CHR 0xE2, CHR 0x80, CHR 0x81] #
     [CHR 0xE2, CHR 0x80, CHR 0x82] # [CHR 0xE2, CHR 0x80, CHR 0x83] #
     [CHR 0xE2, CHR 0x80, CHR 0x84] # [CHR 0xE2, CHR 0x80, CHR 0x85] #
     [CHR 0xE2, CHR 0x80, CHR 0x86] # [CHR 0xE2, CHR 0x80, CHR 0x87] #
     [CHR 0xE2, CHR 0x80, CHR 0x88] # [CHR 0xE2, CHR 0x80, CHR 0x89] #
     [CHR 0xE2, CHR 0x80, CHR 0x8A] # [CHR 0xE2, CHR 0x80, CHR 0xA8] #
     [CHR 0xE2, CHR 0x80, CHR 0xA9] # [CHR 0xE2, CHR 0x80, CHR 0xAF] #
     [CHR 0xE2, CHR 0x81, CHR 0x9F] # [CHR 0xE3, CHR 0x80, CHR 0x80] # []"

fun space_len :: "string list \<Rightarrow> string \<Rightarrow> nat" where
  "space_len [] s = 0"
| "space_len (q # qs) s = (if HasPrefix s q then length q else space_len qs s)"

fun trim_from :: "string list \<Rightarrow> nat \<Rightarrow> string \<Rightarrow> string" where
  "trim_from seqs k [] = []"
| "trim_from seqs (Suc k) (c # cs) = trim_from seqs k cs"
| "trim_from seqs 0 (c # cs) =
     (case space_len seqs (c # cs) of 0 \<Rightarrow> c # cs | Suc k \<Rightarrow> trim_from seqs k cs)"

definition TrimSpace :: "string \<Rightarrow> string" where
  "TrimSpace s = rev (trim_from (map rev white_space) 0 (rev (trim_from white_space 0 s)))"

section \<open>Go's time package\<close>





section \<open>Go's fmt, path/filepath and os packages\<close>

text \<open>\<open>fmt.Sprintf("%d", n)\<close>: the decimal digits of \<open>n\<close>, after a minus sign when \<open>n\<close> is
  negative.\<close>

function digits :: "int \<Rightarrow> string" where
  "digits n = (if n < 10 then [''0123456789'' ! nat n]
               else digits (n div 10) @ [''0123456789'' ! nat (n mod 10)])"
  by pat_completeness auto
termination
  by (relation "measure nat") auto

declare digits.simps [simp del]

definition Sprintf_d :: "int \<Rightarrow> string" where
  "Sprintf_d n = (if n < 0 then CHR ''-'' # digits (- n) else digits n)"

text \<open>
  Paths. \<open>filepath.Ext\<close> scans back from the end of the path to the last dot of the last
  element; \<open>filepath.Base\<close> is the last element, trailing separators dropped.
  \<open>filepath.Join\<close> and \<open>filepath.Dir\<close> also clean their result (doubled separators and
  dot elements are removed). The paths of this program are built from \<open>/tmp/sushe\<close>, a
  decimal number and names that \<open>Glob\<close> lists, which cleaning does not change, and the
  model leaves the cleaning out.
\<close>

definition Join :: "string \<Rightarrow> string \<Rightarrow> string" where
  "Join dir name = dir @ ''/'' @ name"

fun ext_scan :: "string \<Rightarrow> string \<Rightarrow> string" where
  "ext_scan [] acc = []"
| "ext_scan (c # cs) acc =
     (if c = CHR ''/'' then [] else if c = CHR ''.'' then c # acc else ext_scan cs (c # acc))"

definition Ext :: "string \<Rightarrow> string" where
  "Ext path = ext_scan (rev path) []"

definition Base :: "string \<Rightarrow> string" where
  "Base path =
     (if path = [] then ''.''
      else let p = dropWhile (\<lambda>c. c = CHR ''/'') (rev path);
               b = rev (takeWhile (\<lambda>c. c \<noteq> CHR ''/'') p)
           in if b = [] then ''/'' else b)"

definition Dir :: "string \<Rightarrow> string" where
  "Dir path =
     (let d = rev (dropWhile (\<lambda>c. c = CHR ''/'') (dropWhile (\<lambda>c. c \<noteq> CHR ''/'') (rev path)))
      in if d = [] then (if CHR ''/'' \<in> set path then ''/'' else ''.'') else d)"

definition HasSuffix :: "string \<Rightarrow> string \<Rightarrow> bool" where
  "HasSuffix s suffix = HasPrefix (rev s) (rev suffix)"

definition TrimSuffix :: "string \<Rightarrow> string \<Rightarrow> string" where
  "TrimSuffix s suffix = (if HasSuffix s suffix then take (length s - length suffix) s else s)"

text \<open>
  The errors of the program: one constructor for each place where the downloader makes
  an error, a wrapped cause as its argument. \<open>ErrExit\<close> is what \<open>cmd.Wait\<close> and
  \<open>cmd.CombinedOutput\<close> return when the child process could not run to a zero exit
  status, which includes the process being killed when the context's deadline passes.
\<close>

datatype error =
    ErrFfprobe
  | ErrParseFfprobe
  | ErrGetMediaInfo error
  | ErrInvalidDuration float64
  | ErrStdoutPipe
  | ErrStderrPipe
  | ErrStartFfmpeg
  | ErrStartYtDlp
  | ErrExit
  | ErrEncodingFailed error
  | ErrSplitFailed error
  | ErrNoParts
  | ErrNoPartInfo
  | ErrMkdir
  | ErrDownloadFailed error
  | ErrNoFile
  | ErrStat
  | ErrReencode error
  | ErrStatReencoded

text \<open>
  The file system: the paths that are directories and the paths that are files.
  \<open>inside p q\<close> holds when \<open>q\<close> is \<open>p\<close> or lies beneath it. \<open>os.MkdirAll\<close> does nothing and
  reports no error when the path is a directory already; otherwise it fails when the
  path is a file or when the system refuses (\<open>ok\<close> is false), and else creates the
  directory. \<open>os.RemoveAll\<close> removes the path and everything beneath it, \<open>os.Remove\<close> one
  file; the program ignores their error results, and the model takes them to succeed.
  \<open>written fs new\<close> is the file system after a child process created the files \<open>new\<close>.
\<close>

record filesystem =
  dirs :: "string set"
  files :: "string set"

definition inside :: "string \<Rightarrow> string \<Rightarrow> bool" where
  "inside p q = (q = p \<or> HasPrefix q (p @ ''/''))"

definition beneath :: "filesystem \<Rightarrow> string \<Rightarrow> string set" where
  "beneath fs path = {q \<in> dirs fs \<union> files fs. inside path q}"

definition MkdirAll :: "bool \<Rightarrow> filesystem \<Rightarrow> string \<Rightarrow> error + filesystem" where
  "MkdirAll ok fs path =
     (if path \<in> dirs fs then Inr fs
      else if path \<in> files fs \<or> \<not> ok then Inl ErrMkdir
      else Inr (fs\<lparr>dirs := insert path (dirs fs)\<rparr>))"

definition RemoveAll :: "filesystem \<Rightarrow> string \<Rightarrow> filesystem" where
  "RemoveAll fs path =
     \<lparr>dirs = {q \<in> dirs fs. \<not> inside path q}, files = {q \<in> files fs. \<not> inside path q}\<rparr>"

definition Remove :: "filesystem \<Rightarrow> string \<Rightarrow> filesystem" where
  "Remove fs path = fs\<lparr>files := files fs - {path}\<rparr>"

definition written :: "filesystem \<Rightarrow> string set \<Rightarrow> filesystem" where
  "written fs new = fs\<lparr>files := files fs \<union> new\<rparr>"

section \<open>internal/downloader/downloader.go\<close>

definition MaxUploadSize :: int where
  "MaxUploadSize = 1900 * 1024 * 1024"

text \<open>\<open>NeedsSplit\<close> and \<open>CalculateNumParts\<close>; \<open>fileSize\<close> is an int64.\<close>

definition NeedsSplit :: "int \<Rightarrow> bool" where
  "NeedsSplit fileSize = (MaxUploadSize < fileSize)"

definition CalculateNumParts :: "int \<Rightarrow> int" where
  "CalculateNumParts fileSize =
     int_of_f64 (Ceil (f64_div (f64_of_int fileSize) (f64_of_int MaxUploadSize)))"

text \<open>The structs \<open>Progress\<close> and \<open>MediaInfo\<close>. A Go struct literal leaves the fields it
  does not name at their zero values, collected in \<open>Progress_zero\<close>.\<close>

record Progress =
  Phase :: string
  Percent :: float64
  Speed :: string
  ETA :: string
  Downloaded :: string
  Total :: string
  PartNum :: int
  TotalParts :: int
  Codec :: string

definition Progress_zero :: Progress where
  "Progress_zero = \<lparr>Phase = [], Percent = Fin 0, Speed = [], ETA = [], Downloaded = [],
     Total = [], PartNum = 0, TotalParts = 0, Codec = []\<rparr>"

record MediaInfo =
  Duration :: float64
  Bitrate :: int
  FileSize :: int
  Width :: int
  Height :: int

text \<open>
  A line of ffmpeg's error stream, as the progress readers of \<open>ReencodeToH264\<close> and
  \<open>SplitVideo\<close> see it: either the regular expression \<open>time=(\d+):(\d+):(\d+\.?\d*)\<close>
  matches and the three \<open>Sscanf\<close> calls leave \<open>hours\<close> and \<open>mins\<close> (Go ints) and \<open>secs\<close>
  (a float64), or it does not match. The regular expression and \<open>Sscanf\<close> are library
  code; the model starts from what they deliver.
\<close>

datatype ffmpeg_line = TimeMarker int int float64 | OtherLine

text \<open>The body of both readers, named after its local variables:
  \<open>currentTime := float64(hours*3600+mins*60) + secs\<close>,
  \<open>percent := (currentTime / mediaInfo.Duration) * 100\<close>, capped at 100, and in
  \<open>SplitVideo\<close> \<open>partNum := int(currentTime/segmentDuration) + 1\<close>, capped at \<open>numParts\<close>.\<close>

definition currentTime_of :: "int \<Rightarrow> int \<Rightarrow> float64 \<Rightarrow> float64" where
  "currentTime_of hours mins secs =
     f64_add (f64_of_int (wrap64 (hours * 3600 + mins * 60))) secs"

definition percent_of :: "float64 \<Rightarrow> float64 \<Rightarrow> float64" where
  "percent_of currentTime duration =
     (let percent = f64_mul (f64_div currentTime duration) (Fin 100)
      in if f64_lt (Fin 100) percent then Fin 100 else percent)"

definition partNum_of :: "float64 \<Rightarrow> float64 \<Rightarrow> int \<Rightarrow> int" where
  "partNum_of currentTime segmentDuration numParts =
     (let partNum = wrap64 (int_of_f64 (f64_div currentTime segmentDuration) + 1)
      in if numParts < partNum then numParts else partNum)"

text \<open>\<open>segmentDuration := mediaInfo.Duration / float64(numParts)\<close> in \<open>SplitVideo\<close>.\<close>

definition segmentDuration_of :: "MediaInfo \<Rightarrow> int \<Rightarrow> float64" where
  "segmentDuration_of mediaInfo numParts = f64_div (Duration mediaInfo) (f64_of_int numParts)"

text \<open>What the reader of \<open>ReencodeToH264\<close> passes to the progress callback for one line.\<close>

definition encoding_progress :: "MediaInfo \<Rightarrow> ffmpeg_line \<Rightarrow> Progress option" where
  "encoding_progress mediaInfo line =
     (case line of
        OtherLine \<Rightarrow> None
      | TimeMarker hours mins secs \<Rightarrow>
          Some (Progress_zero\<lparr>Phase := ''encoding'',
             Percent := percent_of (currentTime_of hours mins secs) (Duration mediaInfo)\<rparr>))"

text \<open>What the reader of \<open>SplitVideo\<close> passes to the progress callback for one line.\<close>

definition splitting_progress ::
  "MediaInfo \<Rightarrow> int \<Rightarrow> float64 \<Rightarrow> ffmpeg_line \<Rightarrow> Progress option" where
  "splitting_progress mediaInfo numParts segmentDuration line =
     (case line of
        OtherLine \<Rightarrow> None
      | TimeMarker hours mins secs \<Rightarrow>
          (let currentTime = currentTime_of hours mins secs
           in Some (Progress_zero\<lparr>Phase := ''splitting'',
                Percent := percent_of currentTime (Duration mediaInfo),
                PartNum := partNum_of currentTime segmentDuration numParts,
                TotalParts := numParts\<rparr>)))"

text \<open>
  \<open>IsValidURL\<close>. The list of domains is a local variable of the Go function;
  \<open>IsValidURL_with\<close> takes it as an argument so that a theorem can speak about every list.
  The loop returns true at the first domain the string contains, and the function
  returns true after the loop as well.
\<close>

definition supportedDomains :: "string list" where
  "supportedDomains =
     [''youtube.com'', ''youtu.be'', ''twitter.com'', ''x.com'', ''tiktok.com'',
      ''instagram.com'', ''facebook.com'', ''fb.watch'', ''vimeo.com'', ''dailymotion.com'',
      ''twitch.tv'', ''reddit.com'', ''v.redd.it'', ''streamable.com'', ''imgur.com'']"

primrec domain_loop :: "string list \<Rightarrow> string \<Rightarrow> bool" where
  "domain_loop [] s = False"
| "domain_loop (domain # rest) s = (if Contains s domain then True else domain_loop rest s)"

definition IsValidURL_with :: "string list \<Rightarrow> string \<Rightarrow> bool" where
  "IsValidURL_with domains s0 =
     (let s = TrimSpace s0 in
      if \<not> HasPrefix s ''http://'' \<and> \<not> HasPrefix s ''https://'' then False
      else if domain_loop domains s then True
      else True)"

definition IsValidURL :: "string \<Rightarrow> bool" where
  "IsValidURL s = IsValidURL_with supportedDomains s"

text \<open>\<open>IsH264Compatible\<close>.\<close>

definition IsH264Compatible :: "string \<Rightarrow> bool" where
  "IsH264Compatible codec0 =
     (let codec = ToLower codec0 in codec = ''h264'' \<or> codec = ''avc'' \<or> codec = ''avc1'')"

text \<open>A string is a spelling of \<open>t\<close> in some letter case when it has the bytes of \<open>t\<close>, a
  letter possibly replaced by its capital.\<close>

definition case_variant :: "string \<Rightarrow> string \<Rightarrow> bool" where
  "case_variant s t = list_all2 (\<lambda>a b. a = b \<or> a = upper_char b) s t"

text \<open>
  The structs \<open>PartInfo\<close> and \<open>DownloadResult\<close>; a field whose name another struct has
  already carries the struct as a suffix. The \<open>Error\<close> field of \<open>DownloadResult\<close> is never
  set and is left out.
\<close>

definition DownloadDir :: string where
  "DownloadDir = ''/tmp/sushe''"

record PartInfo =
  FilePath_part :: string
  PartNum_part :: int
  FileSize_part :: int

record DownloadResult =
  FilePath_result :: string
  FileName :: string
  Title :: string
  Duration_result :: float64
  FileSize_result :: int
  Width_result :: int
  Height_result :: int
  ContentType :: string
  IsSplit :: bool
  Parts :: "PartInfo list"

text \<open>
  What a run does to the outside, in order: the child processes it starts (yt-dlp with
  the URL and its working directory, ffprobe with the file, ffmpeg with its input and
  output in the transcoding and in the segmenting mode, the latter with the segment
  duration) and the calls of the progress callback. Fixed command-line options are not
  listed. A process counts as started when \<open>cmd.Start\<close> is called, also if that fails.
\<close>

datatype action =
    YtDlp string string
  | Ffprobe string
  | FfmpegEncode string string
  | FfmpegSegment string float64 string
  | Callback Progress

text \<open>
  \<open>GetMediaInfo\<close>. The answer of ffprobe is what the function works on: the process
  failed, or its output is not JSON, or it is a report, given by what the three \<open>Sscanf\<close>
  calls leave in \<open>duration\<close>, \<open>size\<close> and \<open>bitrate\<close> (0 for an absent or unreadable field)
  and by the streams with their \<open>codec_type\<close>, \<open>width\<close> and \<open>height\<close>.
\<close>

datatype probe_stream = ProbeStream string int int

datatype ffprobe_answer =
    ProbeExit
  | ProbeUnparseable
  | ProbeReport float64 int int "probe_stream list"

fun first_video :: "probe_stream list \<Rightarrow> int \<times> int" where
  "first_video [] = (0, 0)"
| "first_video (ProbeStream codec_type w h # rest) =
     (if codec_type = ''video'' then (w, h) else first_video rest)"

definition GetMediaInfo :: "ffprobe_answer \<Rightarrow> error + MediaInfo" where
  "GetMediaInfo answer =
     (case answer of
        ProbeExit \<Rightarrow> Inl ErrFfprobe
      | ProbeUnparseable \<Rightarrow> Inl ErrParseFfprobe
      | ProbeReport duration fsize bitrate streams \<Rightarrow>
          (case first_video streams of (width, height) \<Rightarrow>
             Inr \<lparr>Duration = duration, Bitrate = bitrate, FileSize = fsize,
                  Width = width, Height = height\<rparr>))"

definition getContentType :: "string \<Rightarrow> string" where
  "getContentType filePath =
     (let ext = ToLower (Ext filePath) in
      if ext = ''.mp4'' then ''video/mp4''
      else if ext = ''.webm'' then ''video/webm''
      else if ext = ''.mkv'' then ''video/x-matroska''
      else if ext = ''.mov'' then ''video/quicktime''
      else if ext = ''.avi'' then ''video/x-msvideo''
      else ''video/mp4'')"

text \<open>
  \<open>ReencodeToH264\<close>. The environment of a run says what ffprobe answers, whether
  \<open>StderrPipe\<close>, \<open>Start\<close> and \<open>Wait\<close> succeed, and which lines ffmpeg writes to its error
  stream. \<open>hasCb\<close> says whether a progress callback was passed. The reader goroutine is
  taken to have read every line by the time \<open>Wait\<close> returns.
\<close>

record encode_env =
  en_probe :: ffprobe_answer
  en_pipe :: bool
  en_start :: bool
  en_lines :: "ffmpeg_line list"
  en_wait :: bool

definition ReencodeToH264 ::
  "encode_env \<Rightarrow> string \<Rightarrow> bool \<Rightarrow> (error + string) \<times> action list" where
  "ReencodeToH264 env filePath hasCb =
     (case GetMediaInfo (en_probe env) of
        Inl err \<Rightarrow> (Inl (ErrGetMediaInfo err), [Ffprobe filePath])
      | Inr mediaInfo \<Rightarrow>
          (let dir = Dir filePath;
               baseName = TrimSuffix (Base filePath) (Ext filePath);
               outputPath = Join dir (baseName @ ''_h264.mp4'')
           in if \<not> en_pipe env then (Inl ErrStderrPipe, [Ffprobe filePath])
              else if \<not> en_start env
              then (Inl ErrStartFfmpeg, [Ffprobe filePath, FfmpegEncode filePath outputPath])
              else (let trace = [Ffprobe filePath, FfmpegEncode filePath outputPath] @
                          (if hasCb
                           then map Callback
                                  (List.map_filter (encoding_progress mediaInfo) (en_lines env))
                           else [])
                    in if \<not> en_wait env then (Inl (ErrEncodingFailed ErrExit), trace)
                       else (Inr outputPath, trace))))"

text \<open>
  \<open>SplitVideo\<close>. Its environment also says what \<open>filepath.Glob\<close> returns for the part
  pattern (\<open>None\<close> for an error) and what \<open>os.Stat\<close> answers for a path (the size, or \<open>None\<close>
  for an error). \<open>collect_parts\<close> is the loop over the globbed names; \<open>i\<close> is the index of
  the next name.
\<close>

record split_env =
  sp_probe :: ffprobe_answer
  sp_pipe :: bool
  sp_start :: bool
  sp_lines :: "ffmpeg_line list"
  sp_wait :: bool
  sp_glob :: "string list option"
  sp_stat :: "string \<Rightarrow> int option"

fun collect_parts :: "(string \<Rightarrow> int option) \<Rightarrow> nat \<Rightarrow> string list \<Rightarrow> PartInfo list" where
  "collect_parts stat i [] = []"
| "collect_parts stat i (partFile # rest) =
     (case stat partFile of
        None \<Rightarrow> collect_parts stat (Suc i) rest
      | Some fsize \<Rightarrow>
          \<lparr>FilePath_part = partFile, PartNum_part = int i + 1, FileSize_part = fsize\<rparr>
            # collect_parts stat (Suc i) rest)"

definition SplitVideo ::
  "split_env \<Rightarrow> string \<Rightarrow> bool \<Rightarrow> (error + PartInfo list) \<times> action list" where
  "SplitVideo env filePath hasCb =
     (case GetMediaInfo (sp_probe env) of
        Inl err \<Rightarrow> (Inl (ErrGetMediaInfo err), [Ffprobe filePath])
      | Inr mediaInfo \<Rightarrow>
          if f64_le (Duration mediaInfo) (Fin 0)
          then (Inl (ErrInvalidDuration (Duration mediaInfo)), [Ffprobe filePath])
          else
            (let numParts = CalculateNumParts (FileSize mediaInfo);
                 segmentDuration = segmentDuration_of mediaInfo numParts;
                 dir = Dir filePath;
                 baseName = TrimSuffix (Base filePath) (Ext filePath);
                 outputPattern = Join dir (baseName @ ''_part%03d.mp4'')
             in if \<not> sp_pipe env then (Inl ErrStderrPipe, [Ffprobe filePath])
                else if \<not> sp_start env
                then (Inl ErrStartFfmpeg,
                      [Ffprobe filePath, FfmpegSegment filePath segmentDuration outputPattern])
                else
                  (let trace =
                         [Ffprobe filePath, FfmpegSegment filePath segmentDuration outputPattern] @
                         (if hasCb
                          then map Callback (List.map_filter
                                 (splitting_progress mediaInfo numParts segmentDuration)
                                 (sp_lines env))
                          else [])
                   in if \<not> sp_wait env then (Inl (ErrSplitFailed ErrExit), trace)
                      else
                        (case sp_glob env of
                           None \<Rightarrow> (Inl ErrNoParts, trace)
                         | Some [] \<Rightarrow> (Inl ErrNoParts, trace)
                         | Some (f # fs) \<Rightarrow>
                             (let parts = collect_parts (sp_stat env) 0 (f # fs)
                              in if parts = [] then (Inl ErrNoPartInfo, trace)
                                 else (Inr parts, trace))))))"

text \<open>
  \<open>runWithProgress\<close>, and \<open>cmd.CombinedOutput\<close> for a download without a callback. A line
  of yt-dlp's output is given by the first of the three regular expressions that
  matches it, with the percent that \<open>Sscanf\<close> reads and the three captured strings.
\<close>

datatype ytdlp_line =
    DownloadLine float64 string string string
  | CompleteLine
  | MergerLine
  | OtherOutput

definition download_progress :: "ytdlp_line \<Rightarrow> Progress option" where
  "download_progress line =
     (case line of
        DownloadLine percent size_str speed_str eta_str \<Rightarrow>
          Some (Progress_zero\<lparr>Phase := ''downloading'', Percent := percent, Total := size_str,
                  Speed := speed_str, ETA := eta_str\<rparr>)
      | CompleteLine \<Rightarrow> Some (Progress_zero\<lparr>Phase := ''downloading'', Percent := Fin 100\<rparr>)
      | MergerLine \<Rightarrow> Some (Progress_zero\<lparr>Phase := ''merging'', Percent := Fin 100\<rparr>)
      | OtherOutput \<Rightarrow> None)"

record ytdlp_env =
  yt_stdout_pipe :: bool
  yt_stderr_pipe :: bool
  yt_start :: bool
  yt_lines :: "ytdlp_line list"
  yt_wait :: bool

definition runWithProgress ::
  "ytdlp_env \<Rightarrow> string \<Rightarrow> string \<Rightarrow> error option \<times> action list" where
  "runWithProgress env url workDir =
     (if \<not> yt_stdout_pipe env then (Some ErrStdoutPipe, [])
      else if \<not> yt_stderr_pipe env then (Some ErrStderrPipe, [])
      else if \<not> yt_start env then (Some ErrStartYtDlp, [YtDlp url workDir])
      else (if yt_wait env then None else Some ErrExit,
            YtDlp url workDir # map Callback (List.map_filter download_progress (yt_lines env))))"

definition CombinedOutput ::
  "ytdlp_env \<Rightarrow> string \<Rightarrow> string \<Rightarrow> error option \<times> action list" where
  "CombinedOutput env url workDir =
     (if yt_start env \<and> yt_wait env then None else Some ErrExit, [YtDlp url workDir])"

text \<open>
  \<open>DownloadWithProgress\<close>. \<open>now\<close> is the reading \<open>time.Now().UnixNano()\<close>. The environment
  says whether the system lets \<open>MkdirAll\<close> create a directory, how yt-dlp runs and which
  files it creates, what \<open>Glob\<close> lists in the working directory, what \<open>Stat\<close> answers for
  the first listed file, what \<open>GetVideoCodec\<close> returns (\<open>None\<close> for an error), how the
  re-encoding runs and which files it creates, what \<open>Stat\<close> answers for the re-encoded
  file, and what ffprobe answers at the end. The result is the returned pair, the file
  system at the return, and the actions. \<open>download_result\<close> is the end of the function,
  from the last \<open>GetMediaInfo\<close> on.
\<close>

record download_env =
  dl_mkdir :: bool
  dl_ytdlp :: ytdlp_env
  dl_ytdlp_files :: "string set"
  dl_glob :: "string list option"
  dl_stat :: "int option"
  dl_codec :: "string option"
  dl_encode :: encode_env
  dl_encode_files :: "string set"
  dl_stat_encoded :: "int option"
  dl_probe :: ffprobe_answer

definition download_result ::
  "ffprobe_answer \<Rightarrow> string \<Rightarrow> string \<Rightarrow> string \<Rightarrow> int \<Rightarrow> DownloadResult" where
  "download_result answer filePath fileName title fsize =
     (let (duration, width, height) =
            (case GetMediaInfo answer of
               Inl err \<Rightarrow> (Fin 0, 0, 0)
             | Inr mediaInfo \<Rightarrow> (Duration mediaInfo, Width mediaInfo, Height mediaInfo))
      in \<lparr>FilePath_result = filePath, FileName = fileName, Title = title,
           Duration_result = duration, FileSize_result = fsize, Width_result = width,
           Height_result = height, ContentType = getContentType filePath, IsSplit = False,
           Parts = []\<rparr>)"

definition DownloadWithProgress ::
  "download_env \<Rightarrow> string \<Rightarrow> int \<Rightarrow> string \<Rightarrow> bool \<Rightarrow> filesystem
     \<Rightarrow> (error + DownloadResult) \<times> filesystem \<times> action list" where
  "DownloadWithProgress env downloadDir now url hasCb fs0 =
     (let downloadID = Sprintf_d now;
          workDir = Join downloadDir downloadID
      in case MkdirAll (dl_mkdir env) fs0 workDir of
           Inl err \<Rightarrow> (Inl err, fs0, [])
         | Inr fs1 \<Rightarrow>
             (case (if hasCb then runWithProgress (dl_ytdlp env) url workDir
                    else CombinedOutput (dl_ytdlp env) url workDir) of
                (yt_err, yt_trace) \<Rightarrow>
                  (let fs2 = written fs1 (dl_ytdlp_files env)
                   in case yt_err of
                        Some err \<Rightarrow> (Inl (ErrDownloadFailed err), RemoveAll fs2 workDir, yt_trace)
                      | None \<Rightarrow>
                          (case dl_glob env of
                             None \<Rightarrow> (Inl ErrNoFile, RemoveAll fs2 workDir, yt_trace)
                           | Some [] \<Rightarrow> (Inl ErrNoFile, RemoveAll fs2 workDir, yt_trace)
                           | Some (filePath # others) \<Rightarrow>
                               (case dl_stat env of
                                  None \<Rightarrow> (Inl ErrStat, RemoveAll fs2 workDir, yt_trace)
                                | Some fsize \<Rightarrow>
                                    (let fileName = Base filePath;
                                         title = TrimSuffix fileName (Ext fileName);
                                         codec = (case dl_codec env of
                                                    None \<Rightarrow> ''unknown''
                                                  | Some c \<Rightarrow> c);
                                         trace = yt_trace @ [Ffprobe filePath]
                                     in if \<not> IsH264Compatible codec
                                        then
                                          (case ReencodeToH264 (dl_encode env) filePath hasCb of
                                             (r, enc_trace) \<Rightarrow>
                                               (let fs3 = written fs2 (dl_encode_files env);
                                                    trace' = trace @
                                                      (if hasCb
                                                       then [Callback (Progress_zero\<lparr>
                                                               Phase := ''encoding'',
                                                               Codec := codec, Percent := Fin 0\<rparr>)]
                                                       else []) @ enc_trace
                                                in case r of
                                                     Inl err \<Rightarrow>
                                                       (Inl (ErrReencode err),
                                                        RemoveAll fs3 workDir, trace')
                                                   | Inr newPath \<Rightarrow>
                                                       (let fs4 = Remove fs3 filePath
                                                        in case dl_stat_encoded env of
                                                             None \<Rightarrow>
                                                               (Inl ErrStatReencoded,
                                                                RemoveAll fs4 workDir, trace')
                                                           | Some fsize' \<Rightarrow>
                                                               (Inr (download_result (dl_probe env)
                                                                       newPath (Base newPath)
                                                                       title fsize'),
                                                                fs4, trace' @ [Ffprobe newPath]))))
                                        else (Inr (download_result (dl_probe env)
                                                     filePath fileName title fsize),
                                              fs2, trace @ [Ffprobe filePath])))))))"

text \<open>Environments for the examples: a download of one H.264 file that succeeds or
  whose yt-dlp run fails, and a split into two parts with a given answer of \<open>Stat\<close>.\<close>

definition ex_fs :: filesystem where
  "ex_fs = \<lparr>dirs = {''/tmp/sushe''}, files = {}\<rparr>"

definition ex_ytdlp :: "bool \<Rightarrow> ytdlp_env" where
  "ex_ytdlp ok = \<lparr>yt_stdout_pipe = True, yt_stderr_pipe = True, yt_start = True,
     yt_lines = [CompleteLine], yt_wait = ok\<rparr>"

definition ex_encode :: encode_env where
  "ex_encode = \<lparr>en_probe = ProbeExit, en_pipe = True, en_start = True, en_lines = [],
     en_wait = True\<rparr>"

definition ex_download :: "bool \<Rightarrow> download_env" where
  "ex_download ok = \<lparr>dl_mkdir = True, dl_ytdlp = ex_ytdlp ok,
     dl_ytdlp_files = {''/tmp/sushe/1700000000000000000/clip.mp4''},
     dl_glob = Some [''/tmp/sushe/1700000000000000000/clip.mp4''],
     dl_stat = Some 1000, dl_codec = Some ''h264'', dl_encode = ex_encode,
     dl_encode_files = {}, dl_stat_encoded = None,
     dl_probe = ProbeReport (Fin 10) 1000 800 [ProbeStream ''video'' 1280 720]\<rparr>"

definition ex_split :: "float64 \<Rightarrow> (string \<Rightarrow> int option) \<Rightarrow> split_env" where
  "ex_split duration stat =
     \<lparr>sp_probe = ProbeReport duration 3000000000 800 [ProbeStream ''video'' 1280 720],
      sp_pipe = True, sp_start = True, sp_lines = [], sp_wait = True,
      sp_glob = Some [''/tmp/sushe/1/clip_part000.mp4'', ''/tmp/sushe/1/clip_part001.mp4''],
      sp_stat = stat\<rparr>"

definition stat_second :: "string \<Rightarrow> int option" where
  "stat_second f = (if f = ''/tmp/sushe/1/clip_part001.mp4'' then Some 1500000000 else None)"

definition stat_both :: "string \<Rightarrow> int option" where
  "stat_both f = Some 1500000000"

section \<open>internal/bot/bot.go\<close>
















section \<open>Facts about rounding\<close>

lemma rne_of_int: "rne (of_int k) = k"
  by (simp add: rne_def)

lemma rne_ge_floor: "\<lfloor>y\<rfloor> \<le> rne y"
  by (simp add: rne_def Let_def)

lemma rne_le_ceiling: "rne y \<le> \<lceil>y\<rceil>"
  unfolding rne_def Let_def by (auto simp: ceiling_altdef)

lemma rne_le_int: "y \<le> of_int k \<Longrightarrow> rne y \<le> k"
proof -
  assume "y \<le> of_int k"
  then have "\<lceil>y\<rceil> \<le> k" by (simp add: ceiling_le)
  then show ?thesis using rne_le_ceiling [of y] by linarith
qed

lemma rne_ge_int: "of_int k \<le> y \<Longrightarrow> k \<le> rne y"
proof -
  assume "of_int k \<le> y"
  then have "k \<le> \<lfloor>y\<rfloor>" by (simp add: le_floor_iff)
  then show ?thesis using rne_ge_floor [of y] by linarith
qed

lemma rne_gt_half: "of_int k + 1/2 < y \<Longrightarrow> k + 1 \<le> rne y"
proof -
  assume h: "of_int k + 1/2 < y"
  then have "k \<le> \<lfloor>y\<rfloor>" by linarith
  then consider "\<lfloor>y\<rfloor> = k" | "k + 1 \<le> \<lfloor>y\<rfloor>" by linarith
  then show ?thesis
  proof cases
    case 1
    then have "1/2 < y - of_int \<lfloor>y\<rfloor>" using h by simp
    then show ?thesis using 1 by (simp add: rne_def Let_def)
  next
    case 2
    then show ?thesis using rne_ge_floor [of y] by linarith
  qed
qed

lemma floor_log2_bounds:
  assumes "2 powi a \<le> x" "x < 2 powi b"
  shows "a \<le> \<lfloor>log 2 x\<rfloor> \<and> \<lfloor>log 2 x\<rfloor> < b"
proof -
  have "(0::real) < 2 powi a" by simp
  then have pos: "0 < x" using assms(1) by linarith
  have a: "2 powr real_of_int a = (2::real) powi a"
    by (rule powr_real_of_int') simp_all
  have b: "2 powr real_of_int b = (2::real) powi b"
    by (rule powr_real_of_int') simp_all
  have "real_of_int a \<le> log 2 x"
    using assms(1) pos by (simp add: le_log_iff a)
  moreover have "log 2 x < real_of_int b"
    using assms(2) pos by (simp add: log_less_iff b)
  ultimately show ?thesis by (simp add: le_floor_iff floor_less_iff)
qed

lemma expo_eq:
  assumes "2 powi k \<le> \<bar>x\<bar>" "\<bar>x\<bar> < 2 powi (k + 1)"
  shows "expo x = max (k - 52) (- 1074)"
proof -
  from floor_log2_bounds [OF assms] have "\<lfloor>log 2 \<bar>x\<bar>\<rfloor> = k" by linarith
  then show ?thesis by (simp add: expo_def)
qed

lemma floor_log2_ge1:
  assumes "1 \<le> y"
  shows "\<lfloor>log 2 y\<rfloor> = bitlen \<lfloor>y\<rfloor> - 1"
proof -
  define n where "n = \<lfloor>y\<rfloor>"
  define b where "b = bitlen n"
  have p: "0 < n" unfolding n_def using assms by linarith
  from bitlen_bounds [OF p]
  have lo: "2 ^ nat (b - 1) \<le> n" and hi: "n < 2 ^ nat b" by (simp_all add: b_def)
  have b1: "1 \<le> b"
  proof (rule ccontr)
    assume "\<not> 1 \<le> b"
    then have "nat b = 0" by simp
    with hi have "n < 1" by simp
    with p show False by simp
  qed
  have "real_of_int (2 ^ nat (b - 1)) \<le> real_of_int n" using lo by (simp only: of_int_le_iff)
  then have "2 powi (b - 1) \<le> real_of_int n" using b1 by (simp add: power_int_def)
  then have a: "2 powi (b - 1) \<le> y" unfolding n_def by linarith
  have "n + 1 \<le> 2 ^ nat b" using hi by simp
  then have "real_of_int (n + 1) \<le> real_of_int (2 ^ nat b)" by (simp only: of_int_le_iff)
  then have "real_of_int n + 1 \<le> 2 powi b" using b1 by (simp add: power_int_def)
  then have c: "y < 2 powi b" unfolding n_def by linarith
  from floor_log2_bounds [OF a c] show ?thesis unfolding b_def n_def by linarith
qed

lemma floor_log2_lt1:
  assumes "0 < y" "y < 1"
  shows "\<lfloor>log 2 y\<rfloor> = - bitlen (\<lceil>1 / y\<rceil> - 1)"
proof -
  define z where "z = 1 / y"
  define m where "m = \<lceil>z\<rceil> - 1"
  define c where "c = bitlen m"
  have z1: "1 < z" unfolding z_def using assms by simp
  have mz: "real_of_int m < z \<and> z \<le> real_of_int m + 1" unfolding m_def by linarith
  have p: "0 < m" using z1 mz by linarith
  from bitlen_bounds [OF p]
  have lo: "2 ^ nat (c - 1) \<le> m" and hi: "m < 2 ^ nat c" by (simp_all add: c_def)
  have c1: "1 \<le> c"
  proof (rule ccontr)
    assume "\<not> 1 \<le> c"
    then have "nat c = 0" by simp
    with hi have "m < 1" by simp
    with p show False by simp
  qed
  have "real_of_int (2 ^ nat (c - 1)) \<le> real_of_int m" using lo by (simp only: of_int_le_iff)
  moreover have "real_of_int (2 ^ nat (c - 1)) = 2 ^ nat (c - 1)" by simp
  ultimately have l: "2 ^ nat (c - 1) < z" using mz by linarith
  have "m + 1 \<le> 2 ^ nat c" using hi by simp
  then have "real_of_int (m + 1) \<le> real_of_int (2 ^ nat c)" by (simp only: of_int_le_iff)
  moreover have "real_of_int (2 ^ nat c) = 2 ^ nat c" by simp
  moreover have "real_of_int (m + 1) = real_of_int m + 1" by simp
  ultimately have u: "z \<le> 2 ^ nat c" using mz by linarith
  have y: "y = 1 / z" unfolding z_def by simp
  have z0: "0 < z" using z1 by simp
  have "1 / 2 ^ nat c \<le> 1 / z" using u z0 by (simp add: frac_le)
  moreover have "(2::real) powi (- c) = 1 / 2 ^ nat c"
    using c1 by (simp add: power_int_def field_simps)
  ultimately have a: "2 powi (- c) \<le> y" using y by simp
  have "1 / z < 1 / 2 ^ nat (c - 1)" using l by (simp add: frac_less2)
  moreover have "(2::real) powi (- c + 1) = 1 / 2 ^ nat (c - 1)"
  proof (cases "c = 1")
    case True then show ?thesis by simp
  next
    case False
    then have "nat (c - 1) = nat (- (- c + 1))" "- c + 1 < 0" using c1 by simp_all
    then show ?thesis by (simp add: power_int_def field_simps)
  qed
  ultimately have b: "y < 2 powi (- c + 1)" using y by simp
  from floor_log2_bounds [OF a b] show ?thesis unfolding c_def m_def z_def by linarith
qed

lemma expo_code [code]:
  "expo x = (if x = 0 then - 52
     else max ((if 1 \<le> \<bar>x\<bar> then bitlen \<lfloor>\<bar>x\<bar>\<rfloor> - 1 else - bitlen (\<lceil>1 / \<bar>x\<bar>\<rceil> - 1)) - 52) (- 1074))"
proof (cases "x = 0")
  case True then show ?thesis by (simp add: expo_def log_def)
next
  case False
  then have "0 < \<bar>x\<bar>" by simp
  then show ?thesis using False floor_log2_ge1 [of "\<bar>x\<bar>"] floor_log2_lt1 [of "\<bar>x\<bar>"]
    by (simp add: expo_def)
qed

lemma small_no_overflow: "r \<le> 2 ^ 64 \<Longrightarrow> \<not> f64_overflow \<le> r"
proof -
  assume a: "r \<le> 2 ^ 64"
  have "(2::real) ^ 64 < 2 ^ 1024" by (rule power_strict_increasing) simp_all
  then show ?thesis using a by (simp add: f64_overflow_def)
qed

text \<open>Integers of magnitude up to \<open>2^53\<close> are binary64 numbers: converting them is exact.\<close>

lemma round64_of_int_exact:
  assumes "\<bar>n\<bar> < 2 ^ 53"
  shows "round64 (of_int n) = Fin (of_int n)"
proof (cases "n = 0")
  case True
  then show ?thesis by (simp add: round64_def)
next
  case False
  let ?x = "real_of_int n"
  have lo: "2 powi 0 \<le> \<bar>?x\<bar>" using False by simp
  have "real_of_int \<bar>n\<bar> < real_of_int (2 ^ 53)" using assms by (simp only: of_int_less_iff)
  then have x53: "\<bar>?x\<bar> < 2 ^ 53" by simp
  then have hi: "\<bar>?x\<bar> < 2 powi 53" by simp
  from floor_log2_bounds [OF lo hi]
  have e: "- 52 \<le> expo ?x \<and> expo ?x \<le> 0" unfolding expo_def by linarith
  define m where "m = nat (- expo ?x)"
  have ee: "expo ?x = - int m" using e by (simp add: m_def)
  have p: "(2::real) powi expo ?x = 1 / 2 ^ m"
    by (simp add: ee power_int_minus field_simps)
  have "?x / 2 powi expo ?x = of_int (n * 2 ^ m)" by (simp add: p)
  then have r: "rne (?x / 2 powi expo ?x) = n * 2 ^ m" by (simp only: rne_of_int)
  have "real_of_int (rne (?x / 2 powi expo ?x)) * 2 powi expo ?x
          = real_of_int (n * 2 ^ m) * (1 / 2 ^ m)"
    unfolding r by (simp only: p)
  then have val: "real_of_int (rne (?x / 2 powi expo ?x)) * 2 powi expo ?x = ?x"
    by simp
  have "(2::real) ^ 53 \<le> 2 ^ 64" by (rule power_increasing) simp_all
  then have "\<bar>?x\<bar> \<le> 2 ^ 64" using x53 by linarith
  then have "\<not> f64_overflow \<le> \<bar>?x\<bar>" by (rule small_no_overflow)
  then show ?thesis using False by (simp add: round64_def Let_def val)
qed

lemma round64_2_53: "round64 (2 ^ 53) = Fin (2 ^ 53)"
proof -
  have "expo (2 ^ 53) = 1" using expo_eq [of 53 "2 ^ 53"] by simp
  moreover have "rne (2 ^ 53 / 2) = 2 ^ 52" using rne_of_int [of "2 ^ 52"] by simp
  ultimately show ?thesis by (simp add: round64_def Let_def small_no_overflow)
qed

lemma f64_of_int_exact: "0 \<le> n \<Longrightarrow> n \<le> 2 ^ 53 \<Longrightarrow> f64_of_int n = Fin (of_int n)"
proof -
  assume a: "0 \<le> n" "n \<le> 2 ^ 53"
  show ?thesis
  proof (cases "n = 2 ^ 53")
    case True
    then show ?thesis using round64_2_53 by (simp add: f64_of_int_def)
  next
    case False
    then have "\<bar>n\<bar> < 2 ^ 53" using a by simp
    then show ?thesis unfolding f64_of_int_def by (rule round64_of_int_exact)
  qed
qed

text \<open>A real in \<open>(k, k+1]\<close>, below \<open>2^23\<close> and more than \<open>2^-31\<close> above the integer \<open>k\<close>,
  rounds to a binary64 number that is still in \<open>(k, k+1]\<close>: around such a real the
  binary64 numbers are at most \<open>2^-30\<close> apart.\<close>

lemma round64_between:
  assumes k: "0 \<le> k" and lo: "of_int k + 1 / 2 ^ 31 < x" and hi: "x \<le> of_int k + 1"
    and small: "x < 2 ^ 23"
  shows "\<exists>r. round64 x = Fin r \<and> of_int k < r \<and> r \<le> of_int k + 1"
proof -
  have xpos: "0 < x" using k lo by (smt (verit) of_int_0_le_iff divide_pos_pos zero_less_power)
  have l1: "2 powi (- 31) \<le> \<bar>x\<bar>"
  proof -
    have "(2::real) powi (- 31) = 1 / 2 ^ 31" by (simp add: power_int_minus field_simps)
    moreover have "1 / 2 ^ 31 < x" using k lo by (smt (verit) of_int_0_le_iff)
    ultimately show ?thesis using xpos by simp
  qed
  have l2: "\<bar>x\<bar> < 2 powi 23" using small xpos by simp
  from floor_log2_bounds [OF l1 l2]
  have e: "- 83 \<le> expo x \<and> expo x \<le> - 30" unfolding expo_def by linarith
  define m where "m = nat (- expo x)"
  have ee: "expo x = - int m" using e by (simp add: m_def)
  have m30: "30 \<le> m" using e unfolding m_def by linarith
  have p: "(2::real) powi expo x = 1 / 2 ^ m"
    by (simp add: ee power_int_minus field_simps)
  define y where "y = x / 2 powi expo x"
  have y: "y = x * 2 ^ m" by (simp add: y_def p)
  have big: "(2::real) ^ 30 \<le> 2 ^ m" using m30 by (intro power_increasing) simp_all
  have up: "y \<le> real_of_int ((k + 1) * 2 ^ m)"
    using hi by (simp add: y mult_right_mono)
  have rup: "rne y \<le> (k + 1) * 2 ^ m" using up by (rule rne_le_int)
  have "real_of_int (k * 2 ^ m) + 1 / 2 < y"
  proof -
    have "(1::real) / 2 = 1 / 2 ^ 31 * 2 ^ 30" by simp
    also have "\<dots> \<le> 1 / 2 ^ 31 * 2 ^ m" using big by (intro mult_left_mono) simp_all
    finally have "(1::real) / 2 \<le> 1 / 2 ^ 31 * 2 ^ m" .
    moreover have "(real_of_int k + 1 / 2 ^ 31) * 2 ^ m < x * 2 ^ m"
      using lo by (intro mult_strict_right_mono) simp_all
    ultimately show ?thesis by (simp add: y algebra_simps)
  qed
  then have rlo: "k * 2 ^ m + 1 \<le> rne y" by (rule rne_gt_half)
  define r where "r = real_of_int (rne y) * 2 powi expo x"
  have r: "r = real_of_int (rne y) / 2 ^ m" by (simp add: r_def p)
  have "real_of_int (rne y) \<le> real_of_int ((k + 1) * 2 ^ m)" using rup by (simp only: of_int_le_iff)
  then have r_hi: "r \<le> of_int k + 1" by (simp add: r field_simps)
  have "real_of_int (k * 2 ^ m + 1) \<le> real_of_int (rne y)" using rlo by (simp only: of_int_le_iff)
  then have "real_of_int k * 2 ^ m < real_of_int (rne y)" by simp
  then have r_lo: "of_int k < r" by (simp add: r field_simps)
  have "real_of_int k < 2 ^ 23" using lo small by (smt (verit) divide_pos_pos zero_less_power)
  then have "k < 2 ^ 23" by simp
  then have "k + 1 \<le> 2 ^ 23" by simp
  then have "real_of_int (k + 1) \<le> real_of_int (2 ^ 23)" by (simp only: of_int_le_iff)
  then have "r \<le> 2 ^ 23" using r_hi by simp
  moreover have "(2::real) ^ 23 \<le> 2 ^ 64" by (rule power_increasing) simp_all
  ultimately have "\<bar>r\<bar> \<le> 2 ^ 64" using r_lo k by (smt (verit) of_int_0_le_iff)
  then have "\<not> f64_overflow \<le> \<bar>r\<bar>" by (rule small_no_overflow)
  then have "round64 x = Fin r" using xpos by (simp add: round64_def Let_def r_def y_def)
  then show ?thesis using r_lo r_hi by blast
qed

lemma toward_zero_of_int: "toward_zero (of_int k) = k"
  by (simp add: toward_zero_def)

section \<open>The part count\<close>

lemma CalculateNumParts_exact:
  assumes "0 < S" "S \<le> 2 ^ 53"
  shows "CalculateNumParts S = \<lceil>real_of_int S / real_of_int MaxUploadSize\<rceil>"
proof -
  define M where "M = (1992294400 :: int)"
  have M: "MaxUploadSize = M" by (simp add: MaxUploadSize_def M_def)
  define x where "x = real_of_int S / real_of_int M"
  define k where "k = \<lceil>x\<rceil> - 1"
  have Mpos: "0 < real_of_int M" by (simp add: M_def)
  have xpos: "0 < x" using assms(1) Mpos by (simp add: x_def)
  then have k0: "0 \<le> k" by (simp add: k_def)
  have kx: "real_of_int k < x" "x \<le> real_of_int k + 1"
    unfolding k_def by linarith+
  have "real_of_int (k * M) < real_of_int S"
    using kx(1) Mpos by (simp add: x_def field_simps)
  then have "k * M < S" by (simp only: of_int_less_iff)
  then have "k * M + 1 \<le> S" by simp
  then have "real_of_int (k * M + 1) \<le> real_of_int S" by (simp only: of_int_le_iff)
  then have "real_of_int (k * M + 1) / real_of_int M \<le> real_of_int S / real_of_int M"
    using Mpos by (intro divide_right_mono) simp_all
  moreover have "real_of_int (k * M + 1) / real_of_int M = real_of_int k + 1 / real_of_int M"
    using Mpos by (simp add: add_divide_distrib)
  ultimately have "real_of_int k + 1 / real_of_int M \<le> x" by (simp add: x_def)
  moreover have "1 / 2 ^ 31 < 1 / real_of_int M" by (simp add: M_def)
  ultimately have lo: "real_of_int k + 1 / 2 ^ 31 < x" by linarith
  have "real_of_int S \<le> real_of_int (2 ^ 53)" using assms(2) by (simp only: of_int_le_iff)
  then have "real_of_int S < 2 ^ 23 * real_of_int M" by (simp add: M_def)
  then have small: "x < 2 ^ 23" using Mpos by (simp add: x_def field_simps)
  from round64_between [OF k0 lo kx(2) small]
  obtain r where r: "round64 x = Fin r" "real_of_int k < r" "r \<le> real_of_int k + 1" by blast
  have cr: "\<lceil>r\<rceil> = k + 1" using r(2,3) by (simp add: ceiling_unique)
  have "f64_of_int S = Fin (real_of_int S)" using assms by (intro f64_of_int_exact) simp_all
  moreover have "f64_of_int M = Fin (real_of_int M)" by (intro f64_of_int_exact) (simp_all add: M_def)
  ultimately have "f64_div (f64_of_int S) (f64_of_int M) = Fin r"
    using Mpos r(1) by (simp add: x_def)
  then have "CalculateNumParts S = int_of_f64 (Fin (real_of_int (k + 1)))"
    by (simp add: CalculateNumParts_def M cr)
  also have "\<dots> = k + 1"
  proof -
    have "k + 1 \<le> 2 ^ 23"
    proof -
      have "real_of_int k < 2 ^ 23" using kx(1) small by linarith
      then have "k < 2 ^ 23" by simp
      then show ?thesis by simp
    qed
    then have "k + 1 < 2 ^ 63" by simp
    moreover have "- (2 ^ 63) \<le> k + 1" using k0 by simp
    ultimately show ?thesis by (simp only: int_of_f64.simps toward_zero_of_int) simp
  qed
  finally show ?thesis by (simp add: k_def x_def M)
qed

text \<open>
  C5 (as stated, for all file sizes S > 0) fails: an int64 above \<open>2^53\<close> is rounded when it
  is converted to float64. The file size \<open>9007200835993601 = 4521019 * MaxUploadSize + 1\<close>
  becomes \<open>4521019 * MaxUploadSize\<close>, the quotient is exactly 4521019, and so is the
  result, while the ceiling of the exact quotient is 4521020.
\<close>

theorem C5_counterexample:
  "0 < (9007200835993601::int) \<and>
   CalculateNumParts 9007200835993601 = 4521019 \<and>
   \<lceil>real_of_int 9007200835993601 / real_of_int MaxUploadSize\<rceil> = 4521020"
proof -
  have e1: "expo 9007200835993601 = 1" using expo_eq [of 53 9007200835993601] by simp
  have r1: "rne (9007200835993601 / 2) = 4503600417996800" by (simp add: rne_def)
  have a: "f64_of_int 9007200835993601 = Fin 9007200835993600"
    by (simp add: f64_of_int_def round64_def Let_def e1 r1 small_no_overflow)
  have b: "f64_of_int MaxUploadSize = Fin 1992294400"
    using f64_of_int_exact [of MaxUploadSize] by (simp add: MaxUploadSize_def)
  have c: "round64 4521019 = Fin 4521019"
    using round64_of_int_exact [of 4521019] by simp
  have "CalculateNumParts 9007200835993601 = 4521019"
    by (simp add: CalculateNumParts_def a b c toward_zero_def)
  moreover have "\<lceil>real_of_int 9007200835993601 / real_of_int MaxUploadSize\<rceil> = 4521020"
    by (simp add: MaxUploadSize_def ceiling_unique)
  ultimately show ?thesis by simp
qed

text \<open>
  C5 (amended): for every file size \<open>S\<close> with \<open>0 < S \<le> 2^53\<close>, \<open>CalculateNumParts S\<close> is
  the ceiling of the exact quotient \<open>S / MaxUploadSize\<close>; in particular
  \<open>CalculateNumParts MaxUploadSize = 1\<close> and \<open>CalculateNumParts (MaxUploadSize + 1) = 2\<close>.
\<close>

theorem C5_CalculateNumParts_ceiling:
  "(0 < S \<and> S \<le> 2 ^ 53 \<longrightarrow>
      CalculateNumParts S = \<lceil>real_of_int S / real_of_int MaxUploadSize\<rceil>) \<and>
   CalculateNumParts MaxUploadSize = 1 \<and>
   CalculateNumParts (MaxUploadSize + 1) = 2"
proof -
  have "CalculateNumParts MaxUploadSize = 1"
    using CalculateNumParts_exact [of MaxUploadSize] by (simp add: MaxUploadSize_def)
  moreover have "CalculateNumParts (MaxUploadSize + 1) = 2"
    using CalculateNumParts_exact [of "MaxUploadSize + 1"]
    by (simp add: MaxUploadSize_def ceiling_unique)
  ultimately show ?thesis using CalculateNumParts_exact [of S] by blast
qed

theorem C5_CalculateNumParts_ceiling_witness:
  "0 < (5000000000::int) \<and> (5000000000::int) \<le> 2 ^ 53 \<and> CalculateNumParts 5000000000 = 3"
proof -
  have "\<lceil>real_of_int 5000000000 / real_of_int MaxUploadSize\<rceil> = 3"
    by (simp add: MaxUploadSize_def ceiling_unique)
  then show ?thesis using C5_CalculateNumParts_ceiling [of 5000000000] by simp
qed

section \<open>Progress percentages and part ordinals\<close>

lemma round64_1: "round64 1 = Fin 1"
  using round64_of_int_exact [of 1] by simp

lemma round64_0: "round64 0 = Fin 0"
  by (simp add: round64_def)

lemma round64_nonneg_cases:
  assumes "0 \<le> x"
  shows "round64 x = PInf \<or> (\<exists>r. round64 x = Fin r \<and> 0 \<le> r)"
proof (cases "x = 0")
  case True
  then show ?thesis by (simp add: round64_def)
next
  case False
  then have "0 \<le> x / 2 powi expo x" using assms by simp
  then have "0 \<le> rne (x / 2 powi expo x)" using rne_ge_int [of 0] by simp
  then have "0 \<le> real_of_int (rne (x / 2 powi expo x)) * 2 powi expo x" by simp
  then show ?thesis using False assms by (simp add: round64_def Let_def)
qed

lemma wrap64_id: "- (2 ^ 63) \<le> n \<Longrightarrow> n < 2 ^ 63 \<Longrightarrow> wrap64 n = n"
  by (simp add: wrap64_def)

text \<open>
  C3 (the percent of every transcode and partition event lies in [0, 100], also for a
  reported duration of zero) fails in \<open>ReencodeToH264\<close>, which has no guard on the
  duration: for a file whose probed duration is 0 and the progress line
  \<open>time=00:00:00.00\<close> the reader computes \<open>0 / 0 * 100\<close>, a NaN; \<open>NaN > 100\<close> is false, so
  the NaN is passed to the callback as the percent.
\<close>

theorem C3_zero_duration_percent_NaN:
  "encoding_progress \<lparr>Duration = Fin 0, Bitrate = 0, FileSize = 0, Width = 0, Height = 0\<rparr>
       (TimeMarker 0 0 (Fin 0))
     = Some (Progress_zero\<lparr>Phase := ''encoding'', Percent := NaN\<rparr>) \<and>
   \<not> f64_le (Fin 0) NaN \<and> \<not> f64_le NaN (Fin 100)"
  by (simp add: encoding_progress_def percent_of_def currentTime_of_def wrap64_def
      f64_of_int_def round64_0)

text \<open>
  For a positive finite duration, which is what the guard of \<open>SplitVideo\<close> lets through,
  and an elapsed time that is not negative, the percent of both readers is a number
  between 0 and 100: the quotient and the product are rounded to numbers that are not
  negative or overflow to \<open>+Inf\<close>, and the cap replaces everything above 100.
\<close>

lemma percent_of_in_range:
  assumes "0 \<le> t" and "0 < d"
  shows "\<exists>r. percent_of (Fin t) (Fin d) = Fin r \<and> 0 \<le> r \<and> r \<le> 100"
proof -
  have "0 \<le> t / d" using assms by simp
  from round64_nonneg_cases [OF this]
  consider "round64 (t / d) = PInf" | q where "round64 (t / d) = Fin q" "0 \<le> q" by blast
  then show ?thesis
  proof cases
    case 1
    then show ?thesis using assms by (simp add: percent_of_def)
  next
    case 2
    then have "0 \<le> q * 100" by simp
    from round64_nonneg_cases [OF this]
    consider "round64 (q * 100) = PInf" | r where "round64 (q * 100) = Fin r" "0 \<le> r" by blast
    then show ?thesis
    proof cases
      case 1
      then show ?thesis using 2 assms by (simp add: percent_of_def)
    next
      case (2 r)
      then show ?thesis using \<open>round64 (t / d) = Fin q\<close> assms by (simp add: percent_of_def)
    qed
  qed
qed

lemma splitting_percent_in_range:
  assumes "Duration mediaInfo = Fin d" and "0 < d"
    and "currentTime_of hours mins secs = Fin t" and "0 \<le> t"
  shows "\<exists>p r. splitting_progress mediaInfo numParts segmentDuration (TimeMarker hours mins secs)
             = Some p \<and> Percent p = Fin r \<and> 0 \<le> r \<and> r \<le> 100"
  using percent_of_in_range [OF assms(4,2)] assms(1,3)
  by (auto simp: splitting_progress_def Let_def)

lemma encoding_percent_in_range:
  assumes "Duration mediaInfo = Fin d" and "0 < d"
    and "currentTime_of hours mins secs = Fin t" and "0 \<le> t"
  shows "\<exists>p r. encoding_progress mediaInfo (TimeMarker hours mins secs)
             = Some p \<and> Percent p = Fin r \<and> 0 \<le> r \<and> r \<le> 100"
  using percent_of_in_range [OF assms(4,2)] assms(1,3)
  by (auto simp: encoding_progress_def Let_def)

lemma partNum_of_clamp:
  assumes D: "Duration mediaInfo = Fin d" "0 < d"
    and N: "1 \<le> numParts"
    and T: "0 \<le> t"
    and q: "f64_div (Fin t) (segmentDuration_of mediaInfo numParts) = Fin q" "q < 2 ^ 63 - 1"
  shows "partNum_of (Fin t) (segmentDuration_of mediaInfo numParts) numParts
           = max 1 (min numParts (\<lfloor>q\<rfloor> + 1))"
proof -
  let ?seg = "segmentDuration_of mediaInfo numParts"
  have "0 \<le> real_of_int numParts" using N by simp
  then consider "f64_of_int numParts = PInf" | n where "f64_of_int numParts = Fin n" "0 \<le> n"
    unfolding f64_of_int_def using round64_nonneg_cases by blast
  then have seg: "?seg = PInf \<or> (\<exists>s. ?seg = Fin s \<and> 0 \<le> s)"
  proof cases
    case 1
    then show ?thesis by (simp add: segmentDuration_of_def D)
  next
    case 2
    show ?thesis
    proof (cases "n = 0")
      case True
      then show ?thesis using 2 D by (simp add: segmentDuration_of_def)
    next
      case False
      then have "0 \<le> d / n" using 2 D by simp
      from round64_nonneg_cases [OF this] show ?thesis
        using False 2 D by (simp add: segmentDuration_of_def)
    qed
  qed
  have q0: "0 \<le> q"
  proof -
    from seg show ?thesis
    proof
      assume "?seg = PInf"
      then show ?thesis using q by simp
    next
      assume "\<exists>s. ?seg = Fin s \<and> 0 \<le> s"
      then obtain s where s: "?seg = Fin s" "0 \<le> s" by blast
      show ?thesis
      proof (cases "s = 0")
        case True
        then show ?thesis using q s by (simp split: if_splits)
      next
        case False
        then have "0 \<le> t / s" using s T by simp
        from round64_nonneg_cases [OF this] show ?thesis
          using q(1) s False by auto
      qed
    qed
  qed
  have fl: "0 \<le> \<lfloor>q\<rfloor>" "\<lfloor>q\<rfloor> + 1 < 2 ^ 63"
  proof -
    show "0 \<le> \<lfloor>q\<rfloor>" using q0 by simp
    have "real_of_int \<lfloor>q\<rfloor> < 2 ^ 63 - 1" using q(2) by linarith
    then have "real_of_int (\<lfloor>q\<rfloor> + 1) < real_of_int (2 ^ 63)" by simp
    then show "\<lfloor>q\<rfloor> + 1 < 2 ^ 63" by (simp only: of_int_less_iff)
  qed
  have tr: "toward_zero q = \<lfloor>q\<rfloor>" using q0 by (simp add: toward_zero_def)
  have "int_of_f64 (Fin q) = \<lfloor>q\<rfloor>" using fl by (simp add: tr)
  moreover have "wrap64 (\<lfloor>q\<rfloor> + 1) = \<lfloor>q\<rfloor> + 1" using fl by (intro wrap64_id) simp_all
  ultimately have "partNum_of (Fin t) ?seg numParts
      = (if numParts < \<lfloor>q\<rfloor> + 1 then numParts else \<lfloor>q\<rfloor> + 1)"
    by (simp add: partNum_of_def q(1))
  then show ?thesis using fl N by (simp add: max_def min_def)
qed

lemma round64_dyadic:
  assumes "2 powi k \<le> x" "x < 2 powi (k + 1)" "- 1022 \<le> k" "k < 64"
    and "rne (x / 2 powi (k - 52)) = n"
  shows "round64 x = (if 2 ^ 64 < real_of_int n * 2 powi (k - 52) then round64 x
                      else Fin (real_of_int n * 2 powi (k - 52)))"
proof -
  have "(0::real) < 2 powi k" by simp
  then have pos: "0 < x" using assms(1) by linarith
  have e: "expo x = k - 52" using expo_eq [of k x] assms pos by simp
  show ?thesis
  proof (cases "2 ^ 64 < real_of_int n * 2 powi (k - 52)")
    case True then show ?thesis by simp
  next
    case False
    then have "\<not> f64_overflow \<le> real_of_int n * 2 powi (k - 52)" by (simp add: small_no_overflow)
    moreover have "0 \<le> x / 2 powi (k - 52)" using pos by simp
    then have "0 \<le> n" using rne_ge_int [of 0 "x / 2 powi (k - 52)"] assms(5) by simp
    ultimately show ?thesis using pos False assms(5) by (simp add: round64_def e Let_def)
  qed
qed

lemma round64_3600_03: "round64 (360003 / 100) = Fin (7916549690684867 / 2 ^ 41)"
proof -
  have r: "rne (360003 / 100 / 2 powi (11 - 52)) = 7916549690684867"
    by (simp add: rne_def power_int_minus field_simps)
  show ?thesis using round64_dyadic [of 11 "360003 / 100" 7916549690684867, OF _ _ _ _ r]
    by (simp add: power_int_minus field_simps)
qed

lemma round64_0_01: "round64 (1 / 100) = Fin (5764607523034235 / 2 ^ 59)"
proof -
  have r: "rne (1 / 100 / 2 powi (- 7 - 52)) = 5764607523034235"
    by (simp add: rne_def power_int_minus field_simps)
  show ?thesis using round64_dyadic [of "- 7" "1 / 100" 5764607523034235, OF _ _ _ _ r]
    by (simp add: power_int_minus field_simps)
qed

lemma currentTime_1200_01:
  "currentTime_of 0 20 (Fin (5764607523034235 / 2 ^ 59)) = Fin (5277699793789911 / 2 ^ 42)"
proof -
  have a: "f64_of_int 1200 = Fin 1200" using f64_of_int_exact [of 1200] by simp
  have r: "rne ((1200 + 5764607523034235 / 2 ^ 59) / 2 powi (10 - 52)) = 5277699793789911"
    by (simp add: rne_def power_int_minus field_simps)
  have "round64 (1200 + 5764607523034235 / 2 ^ 59) = Fin (5277699793789911 / 2 ^ 42)"
    using round64_dyadic [of 10 "1200 + 5764607523034235 / 2 ^ 59" 5277699793789911, OF _ _ _ _ r]
    by (simp add: power_int_minus field_simps)
  then show ?thesis by (simp add: currentTime_of_def wrap64_def a)
qed

lemma segmentDuration_1200_01:
  "segmentDuration_of
     \<lparr>Duration = Fin (7916549690684867 / 2 ^ 41), Bitrate = 0, FileSize = 0, Width = 0, Height = 0\<rparr> 3
   = Fin (5277699793789911 / 2 ^ 42)"
proof -
  have a: "f64_of_int 3 = Fin 3" using f64_of_int_exact [of 3] by simp
  have r: "rne (7916549690684867 / 2 ^ 41 / 3 / 2 powi (10 - 52)) = 5277699793789911"
    by (simp add: rne_def power_int_minus field_simps)
  have "round64 (7916549690684867 / 2 ^ 41 / 3) = Fin (5277699793789911 / 2 ^ 42)"
    using round64_dyadic [of 10 "7916549690684867 / 2 ^ 41 / 3" 5277699793789911, OF _ _ _ _ r]
    by (simp add: power_int_minus field_simps)
  then show ?thesis by (simp add: segmentDuration_of_def a)
qed

lemma PartNum_splitting_progress:
  "map_option PartNum (splitting_progress mediaInfo numParts segmentDuration (TimeMarker hours mins secs))
     = Some (partNum_of (currentTime_of hours mins secs) segmentDuration numParts)"
  by (simp add: splitting_progress_def Let_def)

text \<open>
  C4 (as stated: the ordinal is \<open>clamp (floor (T / (D / N)) + 1) 1 N\<close>) fails, because the
  code divides twice in float64 and each quotient is rounded. A source whose duration is
  the float64 \<open>3600.03\<close> is split into 3 parts; the segment duration \<open>D / 3\<close> is rounded
  down to the float64 \<open>1200.01\<close>. At the line \<open>time=00:20:00.01\<close> the elapsed time
  \<open>1200 + 0.01\<close> is that same float64, the quotient is exactly 1 and the emitted ordinal is
  2, while the exact quotient \<open>T / (D / 3)\<close> of the same \<open>T\<close> and \<open>D\<close> is below 1 and the
  formula gives 1.
\<close>

theorem C4_counterexample:
  "(0::real) < 7916549690684867 / 2 ^ 41 \<and> (0::real) \<le> 5277699793789911 / 2 ^ 42 \<and>
   round64 (360003 / 100) = Fin (7916549690684867 / 2 ^ 41) \<and>
   round64 (1 / 100) = Fin (5764607523034235 / 2 ^ 59) \<and>
   currentTime_of 0 20 (Fin (5764607523034235 / 2 ^ 59)) = Fin (5277699793789911 / 2 ^ 42) \<and>
   map_option PartNum
     (splitting_progress
        \<lparr>Duration = Fin (7916549690684867 / 2 ^ 41), Bitrate = 0, FileSize = 0,
           Width = 0, Height = 0\<rparr> 3
        (segmentDuration_of
           \<lparr>Duration = Fin (7916549690684867 / 2 ^ 41), Bitrate = 0, FileSize = 0,
              Width = 0, Height = 0\<rparr> 3)
        (TimeMarker 0 20 (Fin (5764607523034235 / 2 ^ 59)))) = Some 2 \<and>
   max 1 (min 3 (\<lfloor>(5277699793789911 / 2 ^ 42) / ((7916549690684867 / 2 ^ 41) / 3) :: real\<rfloor> + 1))
     = (1::int)"
proof -
  have "partNum_of (Fin (5277699793789911 / 2 ^ 42)) (Fin (5277699793789911 / 2 ^ 42)) 3 = 2"
    by (simp add: partNum_of_def round64_1 toward_zero_def wrap64_def)
  then have pn: "map_option PartNum
     (splitting_progress
        \<lparr>Duration = Fin (7916549690684867 / 2 ^ 41), Bitrate = 0, FileSize = 0,
           Width = 0, Height = 0\<rparr> 3
        (segmentDuration_of
           \<lparr>Duration = Fin (7916549690684867 / 2 ^ 41), Bitrate = 0, FileSize = 0,
              Width = 0, Height = 0\<rparr> 3)
        (TimeMarker 0 20 (Fin (5764607523034235 / 2 ^ 59)))) = Some 2"
    by (simp only: PartNum_splitting_progress segmentDuration_1200_01 currentTime_1200_01)
  moreover have "\<lfloor>(5277699793789911 / 2 ^ 42) / ((7916549690684867 / 2 ^ 41) / 3) :: real\<rfloor> = 0"
    by (simp add: floor_unique)
  then have "max 1 (min 3 (\<lfloor>(5277699793789911 / 2 ^ 42) / ((7916549690684867 / 2 ^ 41) / 3) :: real\<rfloor> + 1))
     = (1::int)" by (simp only:)
  ultimately show ?thesis using round64_3600_03 round64_0_01 currentTime_1200_01 pn by simp
qed


text \<open>
  C4 (amended): the segment duration is the float64 quotient of the duration by
  \<open>float64(numParts)\<close>. Every event that \<open>SplitVideo\<close>'s reader emits carries
  \<open>TotalParts = numParts\<close> and a part ordinal that never exceeds \<open>numParts\<close>. For a
  duration \<open>d > 0\<close>, \<open>numParts \<ge> 1\<close> and an elapsed time \<open>t \<ge> 0\<close>, the ordinal is
  \<open>clamp (floor q + 1) 1 numParts\<close>, where \<open>q\<close> is the float64 quotient of \<open>t\<close> by the
  segment duration (each of the two divisions rounded to the nearest float64), provided
  that \<open>q\<close> is in the range where Go defines the conversion to \<open>int\<close> (finite, below
  \<open>2^63 - 1\<close>).
\<close>

theorem C4_part_ordinal:
  "segmentDuration_of mediaInfo numParts = f64_div (Duration mediaInfo) (f64_of_int numParts) \<and>
   (\<exists>p. splitting_progress mediaInfo numParts (segmentDuration_of mediaInfo numParts)
          (TimeMarker hours mins secs) = Some p \<and>
        TotalParts p = numParts \<and>
        PartNum p \<le> numParts \<and>
        (Duration mediaInfo = Fin d \<and> 0 < d \<and> 1 \<le> numParts \<and>
         currentTime_of hours mins secs = Fin t \<and> 0 \<le> t \<and>
         f64_div (Fin t) (segmentDuration_of mediaInfo numParts) = Fin q \<and> q < 2 ^ 63 - 1
         \<longrightarrow> PartNum p = max 1 (min numParts (\<lfloor>q\<rfloor> + 1))))"
proof -
  let ?seg = "segmentDuration_of mediaInfo numParts"
  let ?p = "Progress_zero\<lparr>Phase := ''splitting'',
              Percent := percent_of (currentTime_of hours mins secs) (Duration mediaInfo),
              PartNum := partNum_of (currentTime_of hours mins secs) ?seg numParts,
              TotalParts := numParts\<rparr>"
  have a: "?seg = f64_div (Duration mediaInfo) (f64_of_int numParts)"
    by (simp add: segmentDuration_of_def)
  have b: "splitting_progress mediaInfo numParts ?seg (TimeMarker hours mins secs) = Some ?p"
    by (simp add: splitting_progress_def Let_def)
  have c: "TotalParts ?p = numParts" by simp
  have d: "PartNum ?p \<le> numParts" by (simp add: partNum_of_def Let_def)
  have e: "PartNum ?p = max 1 (min numParts (\<lfloor>q\<rfloor> + 1))"
    if "Duration mediaInfo = Fin d \<and> 0 < d \<and> 1 \<le> numParts \<and>
        currentTime_of hours mins secs = Fin t \<and> 0 \<le> t \<and>
        f64_div (Fin t) ?seg = Fin q \<and> q < 2 ^ 63 - 1"
  proof -
    have "partNum_of (Fin t) ?seg numParts = max 1 (min numParts (\<lfloor>q\<rfloor> + 1))"
      using that by (intro partNum_of_clamp [of mediaInfo d numParts t q]) simp_all
    then show ?thesis using that by simp
  qed
  from b c d e have "\<exists>p. splitting_progress mediaInfo numParts ?seg (TimeMarker hours mins secs) = Some p \<and>
        TotalParts p = numParts \<and>
        PartNum p \<le> numParts \<and>
        (Duration mediaInfo = Fin d \<and> 0 < d \<and> 1 \<le> numParts \<and>
         currentTime_of hours mins secs = Fin t \<and> 0 \<le> t \<and>
         f64_div (Fin t) ?seg = Fin q \<and> q < 2 ^ 63 - 1
         \<longrightarrow> PartNum p = max 1 (min numParts (\<lfloor>q\<rfloor> + 1)))"
    by blast
  with a show ?thesis by (rule conjI)
qed

theorem C4_part_ordinal_witness:
  "Duration \<lparr>Duration = Fin 8, Bitrate = 0, FileSize = 0, Width = 0, Height = 0\<rparr> = Fin 8 \<and>
   (0::real) < 8 \<and> (1::int) \<le> 2 \<and> currentTime_of 0 0 (Fin 12) = Fin 12 \<and> (0::real) \<le> 12 \<and>
   segmentDuration_of \<lparr>Duration = Fin 8, Bitrate = 0, FileSize = 0, Width = 0, Height = 0\<rparr> 2
     = Fin 4 \<and>
   f64_div (Fin 12)
     (segmentDuration_of \<lparr>Duration = Fin 8, Bitrate = 0, FileSize = 0, Width = 0, Height = 0\<rparr> 2)
     = Fin 3 \<and>
   (3::real) < 2 ^ 63 - 1 \<and>
   (\<exists>p. splitting_progress \<lparr>Duration = Fin 8, Bitrate = 0, FileSize = 0, Width = 0, Height = 0\<rparr>
           2 (segmentDuration_of
                \<lparr>Duration = Fin 8, Bitrate = 0, FileSize = 0, Width = 0, Height = 0\<rparr> 2)
           (TimeMarker 0 0 (Fin 12)) = Some p \<and>
        PartNum p = 2 \<and> TotalParts p = 2)"
proof -
  let ?mi = "\<lparr>Duration = Fin 8, Bitrate = 0, FileSize = 0, Width = 0, Height = 0\<rparr>"
  have r2: "round64 2 = Fin 2" using round64_of_int_exact [of 2] by simp
  have r3: "round64 3 = Fin 3" using round64_of_int_exact [of 3] by simp
  have r4: "round64 4 = Fin 4" using round64_of_int_exact [of 4] by simp
  have r12: "round64 12 = Fin 12" using round64_of_int_exact [of 12] by simp
  have seg: "segmentDuration_of ?mi 2 = Fin 4"
    by (simp add: segmentDuration_of_def f64_of_int_def r2 r4)
  have h4: "currentTime_of 0 0 (Fin 12) = Fin 12"
    by (simp add: currentTime_of_def wrap64_def f64_of_int_def round64_0 r12)
  have h6: "f64_div (Fin 12) (segmentDuration_of ?mi 2) = Fin 3"
    by (simp add: seg r3)
  have hyp: "Duration ?mi = Fin 8 \<and> (0::real) < 8 \<and> (1::int) \<le> 2 \<and>
      currentTime_of 0 0 (Fin 12) = Fin 12 \<and> (0::real) \<le> 12 \<and>
      f64_div (Fin 12) (segmentDuration_of ?mi 2) = Fin 3 \<and> (3::real) < 2 ^ 63 - 1"
    using h4 h6 by simp
  from C4_part_ordinal [of ?mi 2 0 0 "Fin 12" 8 12 3, THEN conjunct2]
  obtain p where p:
    "splitting_progress ?mi 2 (segmentDuration_of ?mi 2) (TimeMarker 0 0 (Fin 12)) = Some p"
    "TotalParts p = 2"
    "Duration ?mi = Fin 8 \<and> (0::real) < 8 \<and> (1::int) \<le> 2 \<and>
      currentTime_of 0 0 (Fin 12) = Fin 12 \<and> (0::real) \<le> 12 \<and>
      f64_div (Fin 12) (segmentDuration_of ?mi 2) = Fin 3 \<and> (3::real) < 2 ^ 63 - 1
      \<longrightarrow> PartNum p = max 1 (min 2 (\<lfloor>3::real\<rfloor> + 1))"
    by blast
  from p(3) hyp have "PartNum p = max 1 (min 2 (\<lfloor>3::real\<rfloor> + 1))" by (rule mp)
  then have "PartNum p = 2" by simp
  with p(1,2) have "\<exists>p. splitting_progress ?mi 2 (segmentDuration_of ?mi 2) (TimeMarker 0 0 (Fin 12)) = Some p \<and>
          PartNum p = 2 \<and> TotalParts p = 2"
    by blast
  then show ?thesis using h4 h6 seg by simp
qed

section \<open>Codec identifiers and URLs\<close>

lemma lower_char_eq_iff:
  assumes "lower_char b = b"
  shows "(lower_char a = b) = (a = b \<or> a = upper_char b)"
proof (cases "65 \<le> (of_char a :: nat) \<and> (of_char a :: nat) \<le> 90")
  case True
  then have la: "lower_char a = char_of (of_char a + 32 :: nat)" by (simp add: lower_char_def)
  have ne: "a \<noteq> b"
  proof
    assume "a = b"
    then have "char_of (of_char a + 32 :: nat) = a" using assms la by simp
    then have "(of_char a + 32 :: nat) mod 256 = of_char a"
      by (metis of_char_of)
    then show False using True by simp
  qed
  show ?thesis
  proof
    assume "lower_char a = b"
    then have "(of_char b :: nat) = of_char a + 32" using la True by auto
    then have "upper_char b = char_of (of_char a :: nat)" using True by (simp add: upper_char_def)
    then show "a = b \<or> a = upper_char b" by simp
  next
    assume "a = b \<or> a = upper_char b"
    then have au: "a = upper_char b" using ne by simp
    then have b: "97 \<le> (of_char b :: nat) \<and> (of_char b :: nat) \<le> 122"
      using ne by (auto simp: upper_char_def Let_def split: if_splits)
    then have "(of_char b - 32 :: nat) < 256" by linarith
    then have "(of_char a :: nat) = of_char b - 32" using au b
      by (simp add: upper_char_def)
    then have "of_char a + 32 = (of_char b :: nat)" using b by linarith
    then show "lower_char a = b" using la by simp
  qed
next
  case False
  then have la: "lower_char a = a" by (auto simp: lower_char_def)
  have "a \<noteq> b \<Longrightarrow> a \<noteq> upper_char b"
  proof
    assume ne: "a \<noteq> b" and au: "a = upper_char b"
    then have b: "97 \<le> (of_char b :: nat) \<and> (of_char b :: nat) \<le> 122"
      by (auto simp: upper_char_def Let_def split: if_splits)
    then have "(of_char b - 32 :: nat) < 256" by linarith
    then have "(of_char a :: nat) = of_char b - 32" using au b
      by (simp add: upper_char_def)
    then show False using False b by linarith
  qed
  then show ?thesis using la by auto
qed

lemma ToLower_eq_iff:
  "\<forall>b \<in> set t. lower_char b = b \<Longrightarrow> (ToLower s = t) = case_variant s t"
proof (induction s arbitrary: t)
  case Nil
  then show ?case by (auto simp: ToLower_def case_variant_def)
next
  case (Cons a s)
  show ?case
  proof (cases t)
    case Nil
    then show ?thesis by (simp add: ToLower_def case_variant_def)
  next
    case (Cons b t')
    then have "lower_char b = b" "\<forall>b \<in> set t'. lower_char b = b" using Cons.prems by simp_all
    then show ?thesis
      using Cons.IH [of t'] lower_char_eq_iff [of b a] Cons
      by (simp add: ToLower_def case_variant_def)
  qed
qed

text \<open>
  C6: \<open>IsH264Compatible\<close> is true exactly for the spellings of \<open>h264\<close>, \<open>avc\<close> and \<open>avc1\<close> in
  any letter case, and false for every other string, the empty string included.
\<close>

theorem C6_IsH264Compatible:
  "IsH264Compatible codec =
     (case_variant codec ''h264'' \<or> case_variant codec ''avc'' \<or> case_variant codec ''avc1'') \<and>
   \<not> IsH264Compatible []"
proof -
  have l: "\<forall>b \<in> set ''h264''. lower_char b = b" "\<forall>b \<in> set ''avc''. lower_char b = b"
    "\<forall>b \<in> set ''avc1''. lower_char b = b"
    by (simp_all add: lower_char_def)
  have "IsH264Compatible codec =
     (case_variant codec ''h264'' \<or> case_variant codec ''avc'' \<or> case_variant codec ''avc1'')"
    unfolding IsH264Compatible_def Let_def
    by (simp only: ToLower_eq_iff [OF l(1)] ToLower_eq_iff [OF l(2)] ToLower_eq_iff [OF l(3)])
  moreover have "\<not> IsH264Compatible []"
    by (simp add: IsH264Compatible_def ToLower_def)
  ultimately show ?thesis by simp
qed

lemma IsH264Compatible_examples:
  "IsH264Compatible ''H264''" "IsH264Compatible ''Avc1''" "IsH264Compatible ''avc''"
  "\<not> IsH264Compatible ''vp9''" "\<not> IsH264Compatible ''unknown''" "\<not> IsH264Compatible ''h2645''"
  by code_simp+

text \<open>
  C10: \<open>IsValidURL\<close> is true exactly when the string, with its surrounding white space
  trimmed, begins with \<open>http://\<close> or \<open>https://\<close>. The result is the same for every list
  of domains in place of the supported ones.
\<close>

theorem C10_IsValidURL:
  "IsValidURL s = (HasPrefix (TrimSpace s) ''http://'' \<or> HasPrefix (TrimSpace s) ''https://'') \<and>
   IsValidURL_with domains s = IsValidURL s"
  by (simp add: IsValidURL_def IsValidURL_with_def Let_def)

lemma IsValidURL_examples:
  "IsValidURL '' https://example.org/clip ''" "IsValidURL ''http://youtube.com/watch''"
  "\<not> IsValidURL ''ftp://youtube.com/watch''" "\<not> IsValidURL ''youtube.com''"
  by code_simp+

section \<open>The rate limiter\<close>















section \<open>The partition stage\<close>

text \<open>
  C7: when the probed duration is zero or negative, \<open>SplitVideo\<close> returns the
  invalid-duration error, and all it did is run ffprobe: ffmpeg is not started, and no
  segment duration (the division by the part count) enters the result.
\<close>

theorem C7_nonpositive_duration_fails_fast:
  assumes "GetMediaInfo (sp_probe env) = Inr mediaInfo"
    and "f64_le (Duration mediaInfo) (Fin 0)"
  shows "SplitVideo env filePath hasCb
           = (Inl (ErrInvalidDuration (Duration mediaInfo)), [Ffprobe filePath])"
  using assms by (simp add: SplitVideo_def)

theorem C7_nonpositive_duration_fails_fast_witness:
  "GetMediaInfo (sp_probe (ex_split (Fin 0) (\<lambda>f. None)))
     = Inr \<lparr>Duration = Fin 0, Bitrate = 800, FileSize = 3000000000, Width = 1280, Height = 720\<rparr> \<and>
   f64_le (Fin 0) (Fin 0) \<and>
   SplitVideo (ex_split (Fin 0) (\<lambda>f. None)) ''/tmp/sushe/1/clip.mp4'' True
     = (Inl (ErrInvalidDuration (Fin 0)), [Ffprobe ''/tmp/sushe/1/clip.mp4''])"
proof -
  have g: "GetMediaInfo (sp_probe (ex_split (Fin 0) (\<lambda>f. None)))
     = Inr \<lparr>Duration = Fin 0, Bitrate = 800, FileSize = 3000000000, Width = 1280, Height = 720\<rparr>"
    by (simp add: GetMediaInfo_def ex_split_def)
  from C7_nonpositive_duration_fails_fast [OF g, of "''/tmp/sushe/1/clip.mp4''" True]
  show ?thesis using g by simp
qed

lemma collect_parts_paths:
  "map FilePath_part (collect_parts stat i fs) = filter (\<lambda>f. stat f \<noteq> None) fs"
  by (induction fs arbitrary: i) (auto split: option.splits)

lemma collect_parts_nums:
  "p \<in> set (collect_parts stat i fs) \<Longrightarrow>
   \<exists>j < length fs. PartNum_part p = int (i + j) + 1 \<and> fs ! j = FilePath_part p"
proof (induction fs arbitrary: i)
  case Nil
  then show ?case by simp
next
  case (Cons f fs)
  show ?case
  proof (cases "p \<in> set (collect_parts stat (Suc i) fs)")
    case True
    from Cons.IH [OF True] obtain j where
      "j < length fs" "PartNum_part p = int (Suc i + j) + 1" "fs ! j = FilePath_part p" by blast
    then have "Suc j < length (f # fs) \<and> PartNum_part p = int (i + Suc j) + 1 \<and>
        (f # fs) ! Suc j = FilePath_part p" by simp
    then show ?thesis by blast
  next
    case False
    then have "PartNum_part p = int i + 1 \<and> FilePath_part p = f"
      using Cons.prems by (auto split: option.splits)
    then have "0 < length (f # fs) \<and> PartNum_part p = int (i + 0) + 1 \<and>
        (f # fs) ! 0 = FilePath_part p" by simp
    then show ?thesis by blast
  qed
qed

lemma collect_parts_lower:
  "p \<in> set (collect_parts stat i fs) \<Longrightarrow> int i + 1 \<le> PartNum_part p"
  using collect_parts_nums [of p stat i fs] by auto

lemma collect_parts_increasing:
  "sorted_wrt (<) (map PartNum_part (collect_parts stat i fs))"
proof (induction fs arbitrary: i)
  case Nil
  then show ?case by simp
next
  case (Cons f fs)
  have "\<forall>p \<in> set (collect_parts stat (Suc i) fs). int i + 1 < PartNum_part p"
    using collect_parts_lower [of _ stat "Suc i" fs] by fastforce
  then show ?case using Cons.IH [of "Suc i"] by (auto split: option.splits)
qed

lemma collect_parts_all:
  "\<forall>f \<in> set fs. stat f \<noteq> None \<Longrightarrow> j < length (collect_parts stat i fs) \<Longrightarrow>
   PartNum_part (collect_parts stat i fs ! j) = int (i + j) + 1"
proof (induction fs arbitrary: i j)
  case Nil
  then show ?case by simp
next
  case (Cons f fs)
  then obtain fsize where s: "stat f = Some fsize" by auto
  show ?case
  proof (cases j)
    case 0
    then show ?thesis by (simp add: s)
  next
    case (Suc k)
    then have "k < length (collect_parts stat (Suc i) fs)" using Cons.prems(2) by (simp add: s)
    from Cons.IH [OF _ this] Cons.prems(1) show ?thesis by (simp add: s Suc)
  qed
qed

lemma SplitVideo_success:
  assumes "SplitVideo env filePath hasCb = (Inr parts, trace)"
  shows "\<exists>partFiles. sp_glob env = Some partFiles \<and>
           parts = collect_parts (sp_stat env) 0 partFiles"
  using assms unfolding SplitVideo_def Let_def
  by (auto split: sum.splits if_splits option.splits list.splits)

text \<open>
  C9 (as stated: the i-th element in filename order has ordinal i) fails when \<open>Stat\<close>
  fails for a listed part, which the loop skips while it keeps counting: with two parts
  listed and the first one not readable, the result is the second part alone, with
  ordinal 2.
\<close>

theorem C9_counterexample:
  "fst (SplitVideo (ex_split (Fin 10) stat_second) ''/tmp/sushe/1/clip.mp4'' False)
     = Inr [\<lparr>FilePath_part = ''/tmp/sushe/1/clip_part001.mp4'', PartNum_part = 2,
             FileSize_part = 1500000000\<rparr>] \<and>
   sp_glob (ex_split (Fin 10) stat_second)
     = Some [''/tmp/sushe/1/clip_part000.mp4'', ''/tmp/sushe/1/clip_part001.mp4''] \<and>
   sorted_wrt (<) [''/tmp/sushe/1/clip_part000.mp4'', ''/tmp/sushe/1/clip_part001.mp4'' :: string]"
  by (simp add: SplitVideo_def GetMediaInfo_def ex_split_def stat_second_def Let_def)

text \<open>
  C9 (amended): in the sequence that a successful \<open>SplitVideo\<close> returns, given that
  \<open>Glob\<close> lists the part files in lexical order, the filenames are in lexical order and
  the ordinals increase along it; every ordinal is the 1-based position of its file in
  the listing of \<open>Glob\<close>; and when \<open>Stat\<close> succeeds for every listed file, the i-th
  element has ordinal i.
\<close>

theorem C9_part_ordinals:
  assumes "SplitVideo env filePath hasCb = (Inr parts, trace)"
    and "sp_glob env = Some partFiles"
    and "sorted_wrt (<) partFiles"
  shows "sorted_wrt (<) (map FilePath_part parts) \<and>
         sorted_wrt (<) (map PartNum_part parts) \<and>
         (\<forall>p \<in> set parts. 1 \<le> PartNum_part p \<and> PartNum_part p \<le> int (length partFiles) \<and>
              partFiles ! nat (PartNum_part p - 1) = FilePath_part p) \<and>
         ((\<forall>f \<in> set partFiles. sp_stat env f \<noteq> None) \<longrightarrow>
              (\<forall>i < length parts. PartNum_part (parts ! i) = int i + 1))"
proof -
  from SplitVideo_success [OF assms(1)] assms(2)
  have parts: "parts = collect_parts (sp_stat env) 0 partFiles" by auto
  have a: "sorted_wrt (<) (map FilePath_part parts)"
    unfolding parts collect_parts_paths using assms(3) by (rule sorted_wrt_filter)
  have b: "sorted_wrt (<) (map PartNum_part parts)"
    unfolding parts by (rule collect_parts_increasing)
  have c: "\<forall>p \<in> set parts. 1 \<le> PartNum_part p \<and> PartNum_part p \<le> int (length partFiles) \<and>
              partFiles ! nat (PartNum_part p - 1) = FilePath_part p"
  proof
    fix p assume "p \<in> set parts"
    then obtain j where "j < length partFiles" "PartNum_part p = int (0 + j) + 1"
      "partFiles ! j = FilePath_part p"
      unfolding parts using collect_parts_nums by blast
    then show "1 \<le> PartNum_part p \<and> PartNum_part p \<le> int (length partFiles) \<and>
              partFiles ! nat (PartNum_part p - 1) = FilePath_part p" by simp
  qed
  have d: "(\<forall>f \<in> set partFiles. sp_stat env f \<noteq> None) \<longrightarrow>
              (\<forall>i < length parts. PartNum_part (parts ! i) = int i + 1)"
    unfolding parts using collect_parts_all [of partFiles "sp_stat env" _ 0] by auto
  show ?thesis using a b c d by blast
qed

theorem C9_part_ordinals_witness:
  "fst (SplitVideo (ex_split (Fin 10) stat_both) ''/tmp/sushe/1/clip.mp4'' False)
     = Inr [\<lparr>FilePath_part = ''/tmp/sushe/1/clip_part000.mp4'', PartNum_part = 1,
             FileSize_part = 1500000000\<rparr>,
            \<lparr>FilePath_part = ''/tmp/sushe/1/clip_part001.mp4'', PartNum_part = 2,
             FileSize_part = 1500000000\<rparr>] \<and>
   sp_glob (ex_split (Fin 10) stat_both)
     = Some [''/tmp/sushe/1/clip_part000.mp4'', ''/tmp/sushe/1/clip_part001.mp4''] \<and>
   sorted_wrt (<) [''/tmp/sushe/1/clip_part000.mp4'', ''/tmp/sushe/1/clip_part001.mp4'' :: string] \<and>
   sorted_wrt (<) (map PartNum_part
      [\<lparr>FilePath_part = ''/tmp/sushe/1/clip_part000.mp4'', PartNum_part = 1,
             FileSize_part = 1500000000\<rparr>,
            \<lparr>FilePath_part = ''/tmp/sushe/1/clip_part001.mp4'', PartNum_part = 2,
             FileSize_part = 1500000000\<rparr>])"
proof -
  let ?r = "SplitVideo (ex_split (Fin 10) stat_both) ''/tmp/sushe/1/clip.mp4'' False"
  let ?parts = "[\<lparr>FilePath_part = ''/tmp/sushe/1/clip_part000.mp4'', PartNum_part = 1,
             FileSize_part = 1500000000\<rparr>,
            \<lparr>FilePath_part = ''/tmp/sushe/1/clip_part001.mp4'', PartNum_part = 2,
             FileSize_part = 1500000000\<rparr>]"
  have f: "fst ?r = Inr ?parts"
    by (simp add: SplitVideo_def GetMediaInfo_def ex_split_def stat_both_def Let_def)
  then have r: "?r = (Inr ?parts, snd ?r)" by (metis prod.collapse)
  have g: "sp_glob (ex_split (Fin 10) stat_both)
     = Some [''/tmp/sushe/1/clip_part000.mp4'', ''/tmp/sushe/1/clip_part001.mp4'']"
    by (simp add: ex_split_def)
  have s: "sorted_wrt (<)
      [''/tmp/sushe/1/clip_part000.mp4'', ''/tmp/sushe/1/clip_part001.mp4'' :: string]"
    by simp
  from C9_part_ordinals [OF r g s] have "sorted_wrt (<) (map PartNum_part ?parts)" by blast
  then show ?thesis using f g s by blast
qed

section \<open>The scratch directory\<close>

lemma beneath_RemoveAll: "beneath (RemoveAll fs path) path = {}"
  by (auto simp: beneath_def RemoveAll_def)

lemma DownloadWithProgress_failure:
  assumes "DownloadWithProgress env downloadDir now url hasCb fs0 = (Inl e, fs', trace)"
  shows "(e = ErrMkdir \<and> fs' = fs0) \<or>
         (\<exists>fs. fs' = RemoveAll fs (Join downloadDir (Sprintf_d now)))"
  using assms unfolding DownloadWithProgress_def Let_def
  by (auto split: sum.splits prod.splits option.splits list.splits if_splits simp: MkdirAll_def)

lemma ex_workDir:
  "Join DownloadDir (Sprintf_d 1700000000000000000) = ''/tmp/sushe/1700000000000000000''"
  by (simp add: Join_def DownloadDir_def Sprintf_d_def digits.simps)

lemma FilePath_download_result:
  "FilePath_result (download_result a filePath fileName title fsize) = filePath"
  by (simp add: download_result_def split: sum.splits prod.splits)

lemma IsH264Compatible_h264: "IsH264Compatible ''h264''"
  by code_simp

lemma ex_inside:
  "inside ''/tmp/sushe/1700000000000000000'' ''/tmp/sushe/1700000000000000000/clip.mp4''"
  by (simp add: inside_def)

text \<open>
  C8: whenever \<open>DownloadWithProgress\<close> returns an error other than the failure to
  create the scratch directory, nothing is left at or beneath the scratch directory
  when it returns.
\<close>

theorem C8_failure_removes_scratch_directory:
  assumes "DownloadWithProgress env downloadDir now url hasCb fs0 = (Inl e, fs', trace)"
    and "e \<noteq> ErrMkdir"
  shows "beneath fs' (Join downloadDir (Sprintf_d now)) = {}"
  using DownloadWithProgress_failure [OF assms(1)] assms(2) beneath_RemoveAll by auto

theorem C8_failure_removes_scratch_directory_witness:
  "DownloadWithProgress (ex_download False) DownloadDir 1700000000000000000
       ''https://b.example/2'' True ex_fs
     = (Inl (ErrDownloadFailed ErrExit),
        RemoveAll \<lparr>dirs = {''/tmp/sushe/1700000000000000000'', ''/tmp/sushe''},
                    files = {''/tmp/sushe/1700000000000000000/clip.mp4''}\<rparr>
          ''/tmp/sushe/1700000000000000000'',
        [YtDlp ''https://b.example/2'' ''/tmp/sushe/1700000000000000000'',
         Callback (Progress_zero\<lparr>Phase := ''downloading'', Percent := Fin 100\<rparr>)]) \<and>
   ErrDownloadFailed ErrExit \<noteq> ErrMkdir \<and>
   beneath (RemoveAll \<lparr>dirs = {''/tmp/sushe/1700000000000000000'', ''/tmp/sushe''},
                    files = {''/tmp/sushe/1700000000000000000/clip.mp4''}\<rparr>
          ''/tmp/sushe/1700000000000000000'') ''/tmp/sushe/1700000000000000000'' = {}"
proof -
  have B: "DownloadWithProgress (ex_download False) DownloadDir 1700000000000000000
        ''https://b.example/2'' True ex_fs
     = (Inl (ErrDownloadFailed ErrExit),
        RemoveAll \<lparr>dirs = {''/tmp/sushe/1700000000000000000'', ''/tmp/sushe''},
                    files = {''/tmp/sushe/1700000000000000000/clip.mp4''}\<rparr>
          ''/tmp/sushe/1700000000000000000'',
        [YtDlp ''https://b.example/2'' ''/tmp/sushe/1700000000000000000'',
         Callback (Progress_zero\<lparr>Phase := ''downloading'', Percent := Fin 100\<rparr>)])"
    unfolding DownloadWithProgress_def ex_workDir Let_def
    by (simp add: ex_download_def ex_ytdlp_def ex_fs_def MkdirAll_def runWithProgress_def
        written_def List.map_filter_simps download_progress_def)
  from C8_failure_removes_scratch_directory [OF B] show ?thesis using B ex_workDir by simp
qed

text \<open>
  C2 (no two concurrent jobs ever share a scratch directory) fails: the directory name
  is the clock reading and nothing else, and \<open>MkdirAll\<close> accepts a directory that
  exists. Two acquisitions that read the same \<open>UnixNano\<close> value work in the same
  directory. Here the first one returns \<open>clip.mp4\<close> in it, and the second one, whose
  yt-dlp run fails while the first job's result is still in use, removes the directory
  together with the first job's file. The second job's \<open>MkdirAll\<close> changes nothing
  wherever it stands after the first job's, so the sequence below is also what two jobs
  started at the same instant do when the second finishes last.
\<close>

theorem C2_same_clock_reading_shares_directory:
  "\<exists>resA fsA traceA e fsB traceB.
     DownloadWithProgress (ex_download True) DownloadDir 1700000000000000000
         ''https://a.example/1'' False ex_fs
       = (Inr resA, fsA, traceA) \<and>
     FilePath_result resA = ''/tmp/sushe/1700000000000000000/clip.mp4'' \<and>
     FilePath_result resA \<in> files fsA \<and>
     DownloadWithProgress (ex_download False) DownloadDir 1700000000000000000
         ''https://b.example/2'' False fsA
       = (Inl e, fsB, traceB) \<and>
     FilePath_result resA \<notin> files fsB"
proof -
  let ?w = "''/tmp/sushe/1700000000000000000''"
  let ?f = "''/tmp/sushe/1700000000000000000/clip.mp4''"
  let ?fsA = "\<lparr>dirs = {?w, ''/tmp/sushe''}, files = {?f}\<rparr>"
  have A: "\<exists>res tr. DownloadWithProgress (ex_download True) DownloadDir 1700000000000000000
        ''https://a.example/1'' False ex_fs = (Inr res, ?fsA, tr) \<and> FilePath_result res = ?f"
    unfolding DownloadWithProgress_def ex_workDir Let_def
    by (simp add: ex_download_def ex_ytdlp_def ex_fs_def MkdirAll_def CombinedOutput_def
        written_def IsH264Compatible_h264 FilePath_download_result)
  have B: "DownloadWithProgress (ex_download False) DownloadDir 1700000000000000000
        ''https://b.example/2'' False ?fsA
      = (Inl (ErrDownloadFailed ErrExit), RemoveAll ?fsA ?w, [YtDlp ''https://b.example/2'' ?w])"
    unfolding DownloadWithProgress_def ex_workDir Let_def
    by (simp add: ex_download_def ex_ytdlp_def MkdirAll_def CombinedOutput_def written_def)
  have C: "?f \<notin> files (RemoveAll ?fsA ?w)"
    using ex_inside by (simp add: RemoveAll_def)
  from A obtain res tr where
    "DownloadWithProgress (ex_download True) DownloadDir 1700000000000000000
        ''https://a.example/1'' False ex_fs = (Inr res, ?fsA, tr)" "FilePath_result res = ?f"
    by blast
  then show ?thesis using B C by (intro exI [of _ res] exI [of _ ?fsA] exI [of _ tr]) auto
qed


end
